theory Spec2Isabelle
  imports Complex_Main
begin

section \<open>Strings and numbers of the scraper\<close>

text \<open>
  A \<^typ>\<open>string\<close> stands for a Python \<open>str\<close> whose code points are all below 256, one
  \<^typ>\<open>char\<close> per code point. A Python \<open>float\<close> is modelled by the rational number its
  decimal text denotes (type \<^typ>\<open>rat\<close>): rounding to binary64 and overflow to infinity are
  outside the model.
\<close>

definition is_space :: "char \<Rightarrow> bool" where
  \<comment> \<open>the code points below 256 that \<open>str.strip()\<close> removes\<close>
  "is_space c = (c \<in> set [CHR 0x09, CHR 0x0A, CHR 0x0B, CHR 0x0C, CHR 0x0D,
                            CHR 0x1C, CHR 0x1D, CHR 0x1E, CHR 0x1F, CHR 0x20,
                            CHR 0x85, CHR 0xA0])"

definition strip :: "string \<Rightarrow> string" where
  "strip s = rev (dropWhile is_space (rev (dropWhile is_space s)))"

definition is_digit :: "char \<Rightarrow> bool" where
  \<comment> \<open>the regular-expression class \<open>[0-9]\<close>\<close>
  "is_digit c = (c \<in> set ''0123456789'')"

definition digit_val :: "char \<Rightarrow> nat" where
  "digit_val c = of_char c - 48"

definition dec_value :: "string \<Rightarrow> nat" where
  "dec_value s = foldl (\<lambda>a c. 10 * a + digit_val c) 0 s"

definition remove_char :: "char \<Rightarrow> string \<Rightarrow> string" where
  \<comment> \<open>\<open>s.replace(c, "")\<close> for a one-character \<open>c\<close>\<close>
  "remove_char c s = filter (\<lambda>x. x \<noteq> c) s"

fun starts_with :: "string \<Rightarrow> string \<Rightarrow> bool" where
  "starts_with s [] = True"
| "starts_with [] (p # ps) = False"
| "starts_with (c # cs) (p # ps) = (c = p \<and> starts_with cs ps)"

fun py_in :: "string \<Rightarrow> string \<Rightarrow> bool" where
  \<comment> \<open>\<open>sub in s\<close>\<close>
  "py_in sub [] = (sub = [])"
| "py_in sub (c # cs) = (starts_with (c # cs) sub \<or> py_in sub cs)"

definition ends_with_char :: "string \<Rightarrow> char \<Rightarrow> bool" where
  \<comment> \<open>\<open>s.endswith(c)\<close> for a one-character \<open>c\<close>\<close>
  "ends_with_char s c = (s \<noteq> [] \<and> last s = c)"

fun split_on :: "char \<Rightarrow> string \<Rightarrow> string list" where
  \<comment> \<open>\<open>s.split(c)\<close> for a one-character separator\<close>
  "split_on sep [] = [[]]"
| "split_on sep (c # cs) =
     (if c = sep then [] # split_on sep cs
      else (case split_on sep cs of
              [] \<Rightarrow> [[c]]
            | p # ps \<Rightarrow> (c # p) # ps))"

definition lower_char :: "char \<Rightarrow> char" where
  \<comment> \<open>\<open>str.lower()\<close> on one code point below 256: A-Z and the upper-case letters
      of Latin-1 (0xC0-0xDE without the multiplication sign 0xD7)\<close>
  "lower_char c =
     (let n = (of_char c :: nat)
      in if (65 \<le> n \<and> n \<le> 90) \<or> (192 \<le> n \<and> n \<le> 222 \<and> n \<noteq> 215)
         then char_of (n + 32) else c)"

definition lower :: "string \<Rightarrow> string" where
  "lower s = map lower_char s"

subsection \<open>\<open>float()\<close> on decimal text\<close>

text \<open>
  Every argument that the scraper hands to \<open>float()\<close> consists of digits, dots and minus
  signs only, so the parser below covers the decimal syntax (optional sign, digits with
  an optional dot, at least one digit) and answers \<open>None\<close>, Python's \<open>ValueError\<close>,
  for the rest.
\<close>

definition unsigned_float :: "string \<Rightarrow> rat option" where
  "unsigned_float s =
     (let ip = takeWhile is_digit s; r = dropWhile is_digit s
      in case r of
           [] \<Rightarrow> if ip = [] then None else Some (of_nat (dec_value ip))
         | c # fp \<Rightarrow>
             if c = CHR ''.'' \<and> list_all is_digit fp \<and> (ip \<noteq> [] \<or> fp \<noteq> [])
             then Some (of_nat (dec_value ip) + of_nat (dec_value fp) / 10 ^ length fp)
             else None)"

definition py_float :: "string \<Rightarrow> rat option" where
  "py_float s =
     (case strip s of
        [] \<Rightarrow> None
      | c # r \<Rightarrow>
          if c = CHR ''-'' then map_option uminus (unsigned_float r)
          else if c = CHR ''+'' then unsigned_float r
          else unsigned_float (c # r))"

subsection \<open>The two patterns of the value normalizer\<close>

definition take_number :: "string \<Rightarrow> string \<times> string" where
  \<comment> \<open>the greedy match of \<open>[0-9]+\.?[0-9]*\<close> at the head of a text that starts with a
      digit, and the text after it\<close>
  "take_number s =
     (let d1 = takeWhile is_digit s; r1 = dropWhile is_digit s
      in case r1 of
           [] \<Rightarrow> (d1, [])
         | c # r2 \<Rightarrow>
             if c = CHR ''.''
             then (d1 @ [c] @ takeWhile is_digit r2, dropWhile is_digit r2)
             else (d1, r1))"

fun search_number :: "string \<Rightarrow> string option" where
  \<comment> \<open>group 1 of \<open>re.search(r"([0-9]+\.?[0-9]*)", s)\<close>: the leftmost match\<close>
  "search_number [] = None"
| "search_number (c # cs) =
     (if is_digit c then Some (fst (take_number (c # cs))) else search_number cs)"

definition percent_at :: "string \<Rightarrow> string option" where
  \<comment> \<open>\<open>([0-9]+\.?[0-9]*)\%\)\<close> matched right after an opening parenthesis. The greedy
      number is the only candidate: a shorter one is followed by a digit or a dot,
      never by the percent sign.\<close>
  "percent_at s =
     (case s of
        [] \<Rightarrow> None
      | c # cs \<Rightarrow>
          if is_digit c \<and> starts_with (snd (take_number s)) ''%)''
          then Some (fst (take_number s)) else None)"

fun search_percent :: "string \<Rightarrow> string option" where
  \<comment> \<open>group 1 of \<open>re.search(r"\(([0-9]+\.?[0-9]*)\%\)", s)\<close>\<close>
  "search_percent [] = None"
| "search_percent (c # cs) =
     (if c = CHR ''('' \<and> percent_at cs \<noteq> None then percent_at cs
      else search_percent cs)"

subsection \<open>\<open>BrowserAgent._parse_financial_value\<close>\<close>

definition apply_suffix :: "string \<Rightarrow> rat \<times> string" where
  \<comment> \<open>the \<open>endswith\<close> chain: B, M, K, T in this order\<close>
  "apply_suffix cleaned =
     (if ends_with_char cleaned CHR ''B'' then (1000000000, butlast cleaned)
      else if ends_with_char cleaned CHR ''M'' then (1000000, butlast cleaned)
      else if ends_with_char cleaned CHR ''K'' then (1000, butlast cleaned)
      else if ends_with_char cleaned CHR ''T'' then (1000000000000, butlast cleaned)
      else (1, cleaned))"

definition parse_financial_value :: "string \<Rightarrow> rat option" where
  "parse_financial_value text =
     (if text = [] \<or> strip text \<in> set [''--'', ''N/A'', ''''] then None
      else
        (case (if py_in ''('' text \<and> py_in ''%'' text then search_percent text else None) of
           Some m \<Rightarrow> py_float m
         | None \<Rightarrow>
             (let cleaned = strip (remove_char CHR ''%'' (remove_char CHR ''$''
                                     (remove_char CHR '','' text)));
                  (multiplier, cleaned') = apply_suffix cleaned
              in case search_number cleaned' of
                   Some m \<Rightarrow> map_option (\<lambda>v. v * multiplier) (py_float m)
                 | None \<Rightarrow> None)))"

subsection \<open>The words of the specification about the normalizer\<close>

text \<open>
  A numeral is what the pattern \<open>[0-9]+\.?[0-9]*\<close> matches as a whole: digits, then
  possibly a dot and more digits.
\<close>

definition is_numeral :: "string \<Rightarrow> bool" where
  "is_numeral s =
     (takeWhile is_digit s \<noteq> [] \<and>
      (case dropWhile is_digit s of
         [] \<Rightarrow> True
       | c # fp \<Rightarrow> c = CHR ''.'' \<and> list_all is_digit fp))"

text \<open>
  The next three definitions say what the specification's steps mean without running
  the scanner of the code. A text has an unsigned percentage in parentheses when it can
  be cut into a prefix, \<open>(\<close>, a numeral, \<open>%)\<close> and a rest. The first numeric substring
  of a text is a numeral with no digit before it that cannot be extended to the right.
  The magnitude suffixes are a table.
\<close>

definition has_percentage :: "string \<Rightarrow> bool" where
  "has_percentage t = (\<exists>pre num post. t = pre @ ''('' @ num @ ''%)'' @ post \<and> is_numeral num)"

definition first_numeral :: "string \<Rightarrow> string \<Rightarrow> bool" where
  "first_numeral s m =
     (\<exists>pre post.
        s = pre @ m @ post \<and> (\<forall>c\<in>set pre. \<not> is_digit c) \<and> is_numeral m \<and>
        (\<forall>c r. post = c # r \<longrightarrow> \<not> is_digit c \<and> (c = CHR ''.'' \<longrightarrow> CHR ''.'' \<in> set m)))"

definition magnitude_suffixes :: "(char \<times> rat) list" where
  "magnitude_suffixes =
     [(CHR ''K'', 10 ^ 3), (CHR ''M'', 10 ^ 6), (CHR ''B'', 10 ^ 9), (CHR ''T'', 10 ^ 12)]"

definition magnitude :: "string \<Rightarrow> rat \<times> string" where
  "magnitude s =
     (case (if s = [] then None else map_of magnitude_suffixes (last s)) of
        None \<Rightarrow> (1, s)
      | Some k \<Rightarrow> (k, butlast s))"

section \<open>The keyword sentiment fallback\<close>

text \<open>
  \<open>RedditSentimentAnalyzer._parse_sentiment_fallback\<close>. The result dictionary is a record;
  its two rendered texts, the key point \<open>Detected p positive and n negative indicators\<close>
  and the summary, are kept as the numbers they are rendered from.
\<close>

definition positive_words :: "string list" where
  "positive_words =
     [''bullish'', ''buy'', ''positive'', ''good'', ''great'', ''strong'', ''up'', ''moon'',
      ''rocket'']"

definition negative_words :: "string list" where
  "negative_words =
     [''bearish'', ''sell'', ''negative'', ''bad'', ''weak'', ''down'', ''crash'', ''dump'']"

definition keyword_count :: "string list \<Rightarrow> string \<Rightarrow> nat" where
  \<comment> \<open>\<open>sum(1 for word in words if word in text_lower)\<close>\<close>
  "keyword_count words text_lower = length (filter (\<lambda>word. py_in word text_lower) words)"

record sentiment_result =
  sentiment :: string
  confidence :: rat
  posts_count :: nat
  indicators :: "nat \<times> nat"

definition parse_sentiment_fallback :: "string \<Rightarrow> sentiment_result" where
  "parse_sentiment_fallback text =
     (let text_lower = lower text;
          positive_count = keyword_count positive_words text_lower;
          negative_count = keyword_count negative_words text_lower;
          (sentiment, confidence) =
            (if positive_count > negative_count
             then (''positive'',
                   min (8 / 10) (5 / 10 + of_int (int positive_count - int negative_count) * (1 / 10)))
             else if negative_count > positive_count
             then (''negative'',
                   min (8 / 10) (5 / 10 + of_int (int negative_count - int positive_count) * (1 / 10)))
             else (''neutral'', 5 / 10))
      in \<lparr>sentiment = sentiment, confidence = confidence,
          posts_count = count_list text CHR 0x0A div 3,
          indicators = (positive_count, negative_count)\<rparr>)"

text \<open>
  What the claim counts, said without the scanner: a keyword is found in a text when the
  text can be cut into a prefix, the keyword and a rest.
\<close>

definition contains_word :: "string \<Rightarrow> string \<Rightarrow> bool" where
  "contains_word t w = (\<exists>pre post. t = pre @ w @ post)"

definition words_found :: "string list \<Rightarrow> string \<Rightarrow> nat" where
  "words_found words t = card {w \<in> set words. contains_word t w}"

section \<open>Pages, the 52-week range and the valuation metrics\<close>

text \<open>
  A call into the browser either raises or returns. An element is known by what its
  \<open>text_content()\<close> does; a selector query raises, finds nothing (\<open>None\<close>) or returns
  an element.
\<close>

datatype 'a outcome = Raised | Returned 'a

type_synonym element = "string option outcome"

type_synonym query = "element option outcome"

record FiftyTwoWeekRange =
  high :: rat
  low :: rat

subsection \<open>The range block of \<open>BrowserAgent._extract_fundamentals\<close>\<close>

definition range_selectors :: "string list" where
  \<open>range_selectors =
     [''div[data-testid="quote-statistics"] td:has-text("52 Week Range") + td'',
      ''div[data-testid="quote-statistics"] td:has-text("52-Week Range") + td'',
      ''[data-test="FIFTY_TWO_WK_RANGE-value"]'']\<close>

definition range_from_text :: "string option \<Rightarrow> FiftyTwoWeekRange option" where
  \<comment> \<open>lines 451 to 457: \<open>if range_text and "-" in range_text\<close>, the split on every
      hyphen, \<open>len(parts) == 2\<close>, and \<open>if low and high\<close>, which a zero fails as
      \<open>None\<close> does\<close>
  "range_from_text range_text =
     (case range_text of
        None \<Rightarrow> None
      | Some t \<Rightarrow>
          if t \<noteq> [] \<and> py_in ''-'' t then
            (case split_on CHR ''-'' (strip t) of
               [p0, p1] \<Rightarrow>
                 (case (parse_financial_value (strip p0), parse_financial_value (strip p1)) of
                    (Some lo, Some hi) \<Rightarrow>
                      if lo \<noteq> 0 \<and> hi \<noteq> 0 then Some \<lparr>high = hi, low = lo\<rparr> else None
                  | _ \<Rightarrow> None)
             | _ \<Rightarrow> None)
          else None)"

fun try_range_selectors :: "(string \<Rightarrow> query) \<Rightarrow> string list \<Rightarrow> FiftyTwoWeekRange option" where
  \<comment> \<open>the loop over the selectors: a selector that raises, finds nothing or gives no
      range is passed over, the first range ends the loop\<close>
  "try_range_selectors wait_for_selector [] = None"
| "try_range_selectors wait_for_selector (selector # rest) =
     (case wait_for_selector selector of
        Raised \<Rightarrow> try_range_selectors wait_for_selector rest
      | Returned None \<Rightarrow> try_range_selectors wait_for_selector rest
      | Returned (Some range_element) \<Rightarrow>
          (case range_element of
             Raised \<Rightarrow> try_range_selectors wait_for_selector rest
           | Returned range_text \<Rightarrow>
               (case range_from_text range_text of
                  Some r \<Rightarrow> Some r
                | None \<Rightarrow> try_range_selectors wait_for_selector rest)))"

subsection \<open>\<open>DataProcessor.calculate_valuation_metrics\<close>\<close>

datatype py_error = ZeroDivisionError

definition py_div :: "rat \<Rightarrow> rat \<Rightarrow> py_error + rat" where
  \<comment> \<open>float division raises on a zero divisor\<close>
  "py_div a b = (if b = 0 then Inl ZeroDivisionError else Inr (a / b))"

text \<open>The fields of the stock data that the function reads.\<close>

record valuation_input =
  current_price :: rat
  roe :: "rat option"
  eps :: "rat option"
  dividend_yield :: "rat option"
  market_cap :: "rat option"
  fifty_two_week_range :: "FiftyTwoWeekRange option"

text \<open>
  The result dictionary, one optional field per key. \<open>pb_ratio\<close> can be present with the
  value \<open>None\<close>, hence the two options.
\<close>

record valuation_metrics =
  pb_ratio :: "rat option option"
  annual_dividend :: "rat option"
  market_cap_category :: "string option"
  position_percent_52w :: "rat option"
  distance_from_52w_high :: "rat option"
  distance_from_52w_low :: "rat option"

definition no_metrics :: valuation_metrics where
  "no_metrics =
     \<lparr>pb_ratio = None, annual_dividend = None, market_cap_category = None,
      position_percent_52w = None, distance_from_52w_high = None,
      distance_from_52w_low = None\<rparr>"

definition pb_step :: "valuation_input \<Rightarrow> valuation_metrics \<Rightarrow> py_error + valuation_metrics" where
  "pb_step d m =
     (case (roe d, eps d) of
        (Some r, Some e) \<Rightarrow>
          if r \<noteq> 0 \<and> e \<noteq> 0 then
            (case py_div e r of
               Inl err \<Rightarrow> Inl err
             | Inr q \<Rightarrow>
                 (let book_value_per_share = q * 100
                  in if book_value_per_share > 0
                     then (case py_div (current_price d) book_value_per_share of
                             Inl err \<Rightarrow> Inl err
                           | Inr pb \<Rightarrow> Inr (m\<lparr>pb_ratio := Some (Some pb)\<rparr>))
                     else Inr (m\<lparr>pb_ratio := Some None\<rparr>)))
          else Inr m
      | _ \<Rightarrow> Inr m)"

definition dividend_step :: "valuation_input \<Rightarrow> valuation_metrics \<Rightarrow> valuation_metrics" where
  "dividend_step d m =
     (case dividend_yield d of
        Some y \<Rightarrow> if y \<noteq> 0 then m\<lparr>annual_dividend := Some (current_price d * y / 100)\<rparr> else m
      | None \<Rightarrow> m)"

definition market_cap_step :: "valuation_input \<Rightarrow> valuation_metrics \<Rightarrow> valuation_metrics" where
  "market_cap_step d m =
     (case market_cap d of
        Some c \<Rightarrow>
          if c \<noteq> 0 then
            m\<lparr>market_cap_category :=
                 Some (if c > 200000000000 then ''Large Cap''
                       else if c > 10000000000 then ''Mid Cap''
                       else if c > 2000000000 then ''Small Cap''
                       else ''Micro Cap'')\<rparr>
          else m
      | None \<Rightarrow> m)"

definition position_in_range :: "rat \<Rightarrow> rat \<Rightarrow> rat \<Rightarrow> py_error + rat" where
  \<comment> \<open>\<open>(price - range_low) / (range_high - range_low) if range_high > range_low else 0\<close>\<close>
  "position_in_range price range_high range_low =
     (if range_high > range_low then py_div (price - range_low) (range_high - range_low)
      else Inr 0)"

definition week52_step :: "valuation_input \<Rightarrow> valuation_metrics \<Rightarrow> py_error + valuation_metrics" where
  "week52_step d m =
     (case fifty_two_week_range d of
        None \<Rightarrow> Inr m
      | Some r \<Rightarrow>
          (let price = current_price d; range_high = high r; range_low = low r
           in case position_in_range price range_high range_low of
                Inl err \<Rightarrow> Inl err
              | Inr position \<Rightarrow>
                  (case py_div (range_high - price) range_high of
                     Inl err \<Rightarrow> Inl err
                   | Inr dh \<Rightarrow>
                       (case py_div (price - range_low) range_low of
                          Inl err \<Rightarrow> Inl err
                        | Inr dl \<Rightarrow>
                            Inr (m\<lparr>position_percent_52w := Some (position * 100),
                                   distance_from_52w_high := Some (dh * 100),
                                   distance_from_52w_low := Some (dl * 100)\<rparr>)))))"

definition valuation_body :: "valuation_input \<Rightarrow> py_error + valuation_metrics" where
  \<comment> \<open>the \<open>try\<close> block\<close>
  "valuation_body d =
     (case pb_step d no_metrics of
        Inl err \<Rightarrow> Inl err
      | Inr m \<Rightarrow> week52_step d (market_cap_step d (dividend_step d m)))"

definition calculate_valuation_metrics :: "valuation_input \<Rightarrow> valuation_metrics" where
  \<comment> \<open>\<open>except Exception\<close> returns the empty dictionary\<close>
  "calculate_valuation_metrics d =
     (case valuation_body d of Inl err \<Rightarrow> no_metrics | Inr m \<Rightarrow> m)"

section \<open>The news collector\<close>

text \<open>
  \<open>BrowserAgent._extract_news\<close>. A news item keeps its title and its address; the source
  label is a constant and the publication date is the clock. A link is known by what
  its \<open>text_content()\<close> and its \<open>get_attribute("href")\<close> do, an article by what its
  \<open>query_selector\<close> does for a link selector. The page answers \<open>query_selector_all\<close> for
  an article selector before and after the scroll.
\<close>

record NewsItem =
  title :: string
  url :: string

record link =
  link_text :: "string option outcome"
  link_href :: "string option outcome"

type_synonym article = "string \<Rightarrow> link option outcome"

record news_page =
  goto :: "unit outcome"
  listing :: "string \<Rightarrow> article list outcome"
  scroll :: "unit outcome"
  listing_after_scroll :: "string \<Rightarrow> article list outcome"

definition article_selectors :: "string list" where
  \<open>article_selectors =
     [''div[data-testid="news-stream"] li.stream-item'',
      ''li.js-stream-content'',
      ''li[data-test-locator="StreamItem"]'',
      ''div[data-testid="ContentStream"] li'',
      ''ul[data-testid="news-stream"] li'',
      ''section[data-testid="news"] li'']\<close>

definition link_selectors :: "string list" where
  \<open>link_selectors =
     [''a.subtle-link'', ''h3 a'', ''a[data-test-locator="StreamItemTitle"]'',
      ''a[href*="/news/"]'', ''a'']\<close>

definition target_count :: nat where
  "target_count = 5"

fun find_articles :: "(string \<Rightarrow> article list outcome) \<Rightarrow> string list \<Rightarrow> article list" where
  \<comment> \<open>the first selector with a non-empty answer; one that raises is passed over\<close>
  "find_articles query_selector_all [] = []"
| "find_articles query_selector_all (selector # rest) =
     (case query_selector_all selector of
        Raised \<Rightarrow> find_articles query_selector_all rest
      | Returned found_articles \<Rightarrow>
          if found_articles \<noteq> [] then found_articles
          else find_articles query_selector_all rest)"

fun find_link :: "article \<Rightarrow> string list \<Rightarrow> link option outcome" where
  \<comment> \<open>\<open>for link_selector in link_selectors: link_el = ...; if link_el: break\<close>\<close>
  "find_link a [] = Returned None"
| "find_link a (link_selector # rest) =
     (case a link_selector of
        Raised \<Rightarrow> Raised
      | Returned None \<Rightarrow> find_link a rest
      | Returned (Some link_el) \<Rightarrow> Returned (Some link_el))"

definition make_url :: "string \<Rightarrow> string" where
  "make_url href =
     (if starts_with href ''http'' then href else ''https://finance.yahoo.com'' @ href)"

definition first_pass_article :: "article \<Rightarrow> NewsItem list \<Rightarrow> NewsItem list" where
  \<comment> \<open>the body of the first loop; an exception leaves the list as it is\<close>
  "first_pass_article a news_items =
     (case find_link a link_selectors of
        Raised \<Rightarrow> news_items
      | Returned None \<Rightarrow> news_items
      | Returned (Some link_el) \<Rightarrow>
          (case link_text link_el of
             Raised \<Rightarrow> news_items
           | Returned t \<Rightarrow>
               (case link_href link_el of
                  Raised \<Rightarrow> news_items
                | Returned h \<Rightarrow>
                    (case (t, h) of
                       (Some title_text, Some href) \<Rightarrow>
                         if title_text = [] \<or> href = [] then news_items
                         else if strip title_text \<noteq> []
                         then news_items @ [\<lparr>title = strip title_text, url = make_url href\<rparr>]
                         else news_items
                     | _ \<Rightarrow> news_items))))"

fun first_pass :: "article list \<Rightarrow> NewsItem list \<Rightarrow> NewsItem list" where
  "first_pass [] news_items = news_items"
| "first_pass (a # rest) news_items =
     (if length news_items \<ge> target_count then news_items
      else first_pass rest (first_pass_article a news_items))"

definition retry_article :: "article \<Rightarrow> NewsItem list \<Rightarrow> NewsItem list" where
  \<comment> \<open>the body of the loop after the scroll, with the check for a duplicate title\<close>
  "retry_article a news_items =
     (case find_link a link_selectors of
        Raised \<Rightarrow> news_items
      | Returned None \<Rightarrow> news_items
      | Returned (Some link_el) \<Rightarrow>
          (case link_text link_el of
             Raised \<Rightarrow> news_items
           | Returned t \<Rightarrow>
               (case link_href link_el of
                  Raised \<Rightarrow> news_items
                | Returned h \<Rightarrow>
                    (case (t, h) of
                       (Some title_text, Some href) \<Rightarrow>
                         if title_text = [] \<or> href = [] then news_items
                         else if list_ex (\<lambda>item. title item = strip title_text) news_items
                         then news_items
                         else news_items @ [\<lparr>title = strip title_text, url = make_url href\<rparr>]
                     | _ \<Rightarrow> news_items))))"

fun retry_articles :: "article list \<Rightarrow> NewsItem list \<Rightarrow> NewsItem list" where
  "retry_articles [] news_items = news_items"
| "retry_articles (a # rest) news_items =
     (if length news_items \<ge> target_count then news_items
      else retry_articles rest (retry_article a news_items))"

fun retry_pass ::
  "(string \<Rightarrow> article list outcome) \<Rightarrow> string list \<Rightarrow> article list \<Rightarrow> NewsItem list \<Rightarrow>
   NewsItem list" where
  \<comment> \<open>the first selector that now answers with more articles than before is the one
      whose new articles are processed\<close>
  "retry_pass query_selector_all [] articles news_items = news_items"
| "retry_pass query_selector_all (selector # rest) articles news_items =
     (case query_selector_all selector of
        Raised \<Rightarrow> retry_pass query_selector_all rest articles news_items
      | Returned additional_articles \<Rightarrow>
          if length additional_articles > length articles
          then retry_articles (drop (length articles) additional_articles) news_items
          else retry_pass query_selector_all rest articles news_items)"

definition extract_news :: "news_page \<Rightarrow> NewsItem list" where
  "extract_news page =
     (case goto page of
        Raised \<Rightarrow> []
      | Returned u \<Rightarrow>
          (let articles = find_articles (listing page) article_selectors
           in if articles = [] then []
              else
                (let news_items = first_pass articles []
                 in if length news_items < target_count
                    then (case scroll page of
                            Raised \<Rightarrow> news_items
                          | Returned v \<Rightarrow>
                              retry_pass (listing_after_scroll page) article_selectors
                                articles news_items)
                    else news_items)))"

text \<open>
  A listing for the examples: two articles before the scroll; after it the same two, one
  that repeats the first title with blanks around it, and a new one.
\<close>

definition plain_article :: "string \<Rightarrow> string \<Rightarrow> article" where
  "plain_article t h =
     (\<lambda>link_selector.
        if link_selector = ''a''
        then Returned (Some \<lparr>link_text = Returned (Some t), link_href = Returned (Some h)\<rparr>)
        else Returned None)"

definition example_news_page :: news_page where
  "example_news_page =
     \<lparr>goto = Returned (),
      listing = (\<lambda>selector.
        if selector = ''li.js-stream-content''
        then Returned [plain_article ''Alpha rises'' ''/news/alpha'',
                       plain_article ''Beta falls'' ''https://example.org/beta'']
        else Returned []),
      scroll = Returned (),
      listing_after_scroll = (\<lambda>selector.
        if selector = ''li.js-stream-content''
        then Returned [plain_article ''Alpha rises'' ''/news/alpha'',
                       plain_article ''Beta falls'' ''https://example.org/beta'',
                       plain_article '' Alpha rises '' ''/news/alpha-again'',
                       plain_article ''Gamma holds'' ''/news/gamma'']
        else Returned [])\<rparr>"

section \<open>Facts about the value normalizer\<close>

lemma digit_not_space: "is_digit c \<Longrightarrow> \<not> is_space c"
  by (auto simp: is_digit_def is_space_def)

lemma digit_facts [simp]:
  "\<not> is_digit CHR ''.''" "\<not> is_digit CHR ''%''" "\<not> is_digit CHR ''-''"
  "\<not> is_digit CHR ''(''" "\<not> is_digit CHR '')''" "\<not> is_digit CHR ''+''"
  by (simp_all add: is_digit_def)

lemma space_facts [simp]:
  "\<not> is_space CHR ''.''" "\<not> is_space CHR ''-''"  "\<not> is_space CHR ''(''" "\<not> is_space CHR '')''"
  by (simp_all add: is_space_def)

lemma takeWhile_all_then: "list_all P xs \<Longrightarrow> \<not> P y \<Longrightarrow> takeWhile P (xs @ y # ys) = xs"
  by (induction xs) auto

lemma dropWhile_all_then: "list_all P xs \<Longrightarrow> \<not> P y \<Longrightarrow> dropWhile P (xs @ y # ys) = y # ys"
  by (induction xs) auto

lemma takeWhile_all: "list_all P xs \<Longrightarrow> takeWhile P xs = xs"
  by (induction xs) auto

lemma dropWhile_all: "list_all P xs \<Longrightarrow> dropWhile P xs = []"
  by (induction xs) auto

lemma list_all_takeWhile: "list_all P (takeWhile P xs)"
  by (induction xs) auto

text \<open>The two shapes of a numeral.\<close>

lemma is_numeral_cases:
  assumes "is_numeral s"
  obtains (int) "s \<noteq> []" "list_all is_digit s"
  | (frac) d1 d2 where "s = d1 @ CHR ''.'' # d2" "d1 \<noteq> []" "list_all is_digit d1" "list_all is_digit d2"
proof (cases "dropWhile is_digit s")
  case Nil
  then have "takeWhile is_digit s = s"
    by (metis append_Nil2 takeWhile_dropWhile_id)
  with assms have "s \<noteq> []" "list_all is_digit s"
    using list_all_takeWhile [of is_digit s] by (auto simp: is_numeral_def list_all_iff)
  then show ?thesis by (rule int)
next
  case (Cons c fp)
  with assms have c: "c = CHR ''.''" and fp: "list_all is_digit fp" and ne: "takeWhile is_digit s \<noteq> []"
    by (auto simp: is_numeral_def)
  have "s = takeWhile is_digit s @ CHR ''.'' # fp"
    using takeWhile_dropWhile_id [of is_digit s] Cons c by simp
  then show ?thesis using ne list_all_takeWhile [of is_digit s] fp by (rule frac)
qed

lemma take_number_numeral_then:
  assumes "is_numeral s" "\<not> is_digit y" "y \<noteq> CHR ''.''"
  shows "take_number (s @ y # ys) = (s, y # ys)"
  using assms(1)
proof (cases rule: is_numeral_cases)
  case int
  then show ?thesis using assms(2,3)
    by (simp add: take_number_def takeWhile_all_then dropWhile_all_then)
next
  case (frac d1 d2)
  then show ?thesis using assms(2)
    by (simp add: take_number_def takeWhile_all_then dropWhile_all_then)
qed

lemma take_number_numeral:
  assumes "is_numeral s"
  shows "take_number s = (s, [])"
  using assms
proof (cases rule: is_numeral_cases)
  case int
  then show ?thesis
    by (simp add: take_number_def takeWhile_all dropWhile_all)
next
  case (frac d1 d2)
  then show ?thesis
    by (simp add: take_number_def takeWhile_all_then dropWhile_all_then takeWhile_all dropWhile_all)
qed

lemma numeral_head: "is_numeral s \<Longrightarrow> \<exists>c cs. s = c # cs \<and> is_digit c"
  by (cases s) (auto simp: is_numeral_def split: if_splits)

lemma numeral_chars: "is_numeral s \<Longrightarrow> c \<in> set s \<Longrightarrow> is_digit c \<or> c = CHR ''.''"
  by (erule is_numeral_cases) (auto simp: list_all_iff)

lemma numeral_last: "is_numeral s \<Longrightarrow> is_digit (last s) \<or> last s = CHR ''.''"
  using numeral_chars [of s "last s"] numeral_head [of s] by fastforce

lemma strip_id:
  assumes "s \<noteq> []" "\<not> is_space (hd s)" "\<not> is_space (last s)"
  shows "strip s = s"
proof -
  have "dropWhile is_space s = s"
    using assms(2) by (simp add: dropWhile_eq_self_iff)
  moreover have "dropWhile is_space (rev s) = rev s"
    using assms(1,3) by (simp add: dropWhile_eq_self_iff hd_rev)
  ultimately show ?thesis by (simp add: strip_def)
qed

lemma unsigned_float_numeral:
  assumes "is_numeral s"
  shows "\<exists>v. unsigned_float s = Some v \<and> 0 \<le> v"
  using assms
proof (cases rule: is_numeral_cases)
  case int
  then show ?thesis
    by (simp add: unsigned_float_def takeWhile_all dropWhile_all)
next
  case (frac d1 d2)
  then show ?thesis
    by (simp add: unsigned_float_def takeWhile_all_then dropWhile_all_then)
qed

lemma py_float_numeral:
  assumes "is_numeral s"
  shows "\<exists>v. py_float s = Some v \<and> 0 \<le> v"
proof -
  obtain c cs where s: "s = c # cs" and c: "is_digit c"
    using numeral_head [OF assms] by blast
  have "\<not> is_space (last s)"
    using numeral_last [OF assms] digit_not_space by auto
  then have "strip s = s"
    using s c digit_not_space by (intro strip_id) auto
  moreover have "c \<noteq> CHR ''-''" "c \<noteq> CHR ''+''" using c by auto
  ultimately have "py_float s = unsigned_float s"
    using s by (simp add: py_float_def)
  then show ?thesis using unsigned_float_numeral [OF assms] by simp
qed

lemma py_in_single: "py_in [c] s \<longleftrightarrow> c \<in> set s"
  by (induction s) auto

lemma starts_with_append: "starts_with s p \<longleftrightarrow> (\<exists>r. s = p @ r)"
  by (induction s p rule: starts_with.induct) auto

lemma search_number_None: "search_number s = None \<longleftrightarrow> (\<forall>c\<in>set s. \<not> is_digit c)"
  by (induction s) auto

lemma percent_at_no_digit: "\<forall>c\<in>set s. \<not> is_digit c \<Longrightarrow> percent_at s = None"
  by (cases s) (auto simp: percent_at_def)

lemma search_percent_no_digit: "\<forall>c\<in>set s. \<not> is_digit c \<Longrightarrow> search_percent s = None"
  by (induction s) (auto simp: percent_at_no_digit)

lemma take_number_split:
  assumes "s = c # cs" "is_digit c"
  shows "fst (take_number s) @ snd (take_number s) = s" and "is_numeral (fst (take_number s))"
proof -
  let ?d = "takeWhile is_digit s" and ?r = "dropWhile is_digit s"
  have d: "?d \<noteq> []" "list_all is_digit ?d" "?d @ ?r = s"
    using assms by (simp_all add: list_all_takeWhile)
  show "fst (take_number s) @ snd (take_number s) = s"
  proof (cases ?r)
    case Nil
    show ?thesis using d(3) unfolding take_number_def Let_def Nil by simp
  next
    case (Cons y r2)
    have "takeWhile is_digit s @ y # takeWhile is_digit r2 @ dropWhile is_digit r2 = s"
      using d(3) unfolding Cons by simp
    then show ?thesis using d(3) unfolding take_number_def Let_def Cons by auto
  qed
  show "is_numeral (fst (take_number s))"
  proof (cases ?r)
    case Nil
    show ?thesis using d(1,2) unfolding take_number_def Let_def Nil
      by (simp add: is_numeral_def takeWhile_all dropWhile_all)
  next
    case (Cons y r2)
    show ?thesis
    proof (cases "y = CHR ''.''")
      case True
      then show ?thesis using d(1,2) unfolding take_number_def Let_def Cons
        by (simp add: is_numeral_def takeWhile_all_then dropWhile_all_then
            list_all_takeWhile)
    next
      case False
      then show ?thesis using d(1,2) unfolding take_number_def Let_def Cons
        by (simp add: is_numeral_def takeWhile_all dropWhile_all)
    qed
  qed
qed

lemma percent_at_Some:
  assumes "percent_at s = Some m"
  shows "\<exists>post. s = m @ ''%)'' @ post" and "is_numeral m"
proof -
  from assms obtain c cs where s: "s = c # cs" and c: "is_digit c"
    and sw: "starts_with (snd (take_number s)) ''%)''" and m: "m = fst (take_number s)"
    by (cases s) (auto simp: percent_at_def split: if_splits)
  from sw obtain post where "snd (take_number s) = ''%)'' @ post"
    unfolding starts_with_append by blast
  then have "s = m @ ''%)'' @ post"
    using take_number_split(1) [OF s c] m by simp
  then show "\<exists>post. s = m @ ''%)'' @ post" by blast
  show "is_numeral m" using take_number_split(2) [OF s c] m by simp
qed

lemma percent_at_numeral:
  assumes "is_numeral num"
  shows "percent_at (num @ ''%)'' @ post) = Some num"
proof -
  obtain c cs where "num = c # cs" "is_digit c"
    using numeral_head [OF assms] by blast
  moreover have "take_number (num @ CHR ''%'' # CHR '')'' # post) = (num, CHR ''%'' # CHR '')'' # post)"
    using assms by (intro take_number_numeral_then) simp_all
  ultimately show ?thesis by (simp add: percent_at_def)
qed

lemma search_percent_leftmost:
  assumes "s = pre @ ''('' @ num @ ''%)'' @ post" "is_numeral num"
  shows "\<exists>pre' num' post'. s = pre' @ ''('' @ num' @ ''%)'' @ post' \<and> is_numeral num' \<and>
           length pre' \<le> length pre \<and> search_percent s = Some num'"
  using assms
proof (induction s arbitrary: pre)
  case Nil
  then show ?case by simp
next
  case (Cons c cs)
  show ?case
  proof (cases "c = CHR ''('' \<and> percent_at cs \<noteq> None")
    case True
    then obtain m where m: "percent_at cs = Some m" by blast
    from percent_at_Some [OF m] obtain post' where "cs = m @ ''%)'' @ post'" "is_numeral m"
      by blast
    then have "c # cs = [] @ ''('' @ m @ ''%)'' @ post' \<and> is_numeral m \<and>
        length ([]::string) \<le> length pre \<and> search_percent (c # cs) = Some m"
      using True m by simp
    then show ?thesis by blast
  next
    case False
    have "pre \<noteq> []"
    proof
      assume "pre = []"
      with Cons.prems have "c = CHR ''(''" "cs = num @ ''%)'' @ post" by simp_all
      then show False using False percent_at_numeral [OF Cons.prems(2), of post] by simp
    qed
    then obtain p where pre: "pre = c # p" and cs: "cs = p @ ''('' @ num @ ''%)'' @ post"
      using Cons.prems(1) by (cases pre) auto
    from Cons.IH [OF cs Cons.prems(2)] obtain pre' num' post' where
      h: "cs = pre' @ ''('' @ num' @ ''%)'' @ post'" "is_numeral num'"
         "length pre' \<le> length p" "search_percent cs = Some num'"
      by blast
    have "c # cs = (c # pre') @ ''('' @ num' @ ''%)'' @ post' \<and> is_numeral num' \<and>
        length (c # pre') \<le> length pre \<and> search_percent (c # cs) = Some num'"
      using h pre False by auto
    then show ?thesis by blast
  qed
qed

lemma search_percent_Some:
  assumes "search_percent s = Some m"
  shows "\<exists>pre post. s = pre @ ''('' @ m @ ''%)'' @ post" and "is_numeral m"
  using assms
proof (induction s)
  case Nil
  { case 1 then show ?case by simp }
  { case 2 then show ?case by simp }
next
  case (Cons c cs)
  { case 1
    show ?case
    proof (cases "c = CHR ''('' \<and> percent_at cs \<noteq> None")
      case True
      with 1 have "percent_at cs = Some m" by simp
      from percent_at_Some(1) [OF this] obtain post where "cs = m @ ''%)'' @ post" by blast
      with True have "c # cs = [] @ ''('' @ m @ ''%)'' @ post" by simp
      then show ?thesis by blast
    next
      case False
      with 1 have "search_percent cs = Some m" by auto
      from Cons.IH(1) [OF this] obtain pre post where "cs = pre @ ''('' @ m @ ''%)'' @ post" by blast
      then have "c # cs = (c # pre) @ ''('' @ m @ ''%)'' @ post" by simp
      then show ?thesis by blast
    qed }
  { case 2
    show ?case
    proof (cases "c = CHR ''('' \<and> percent_at cs \<noteq> None")
      case True
      with 2 have "percent_at cs = Some m" by simp
      then show ?thesis by (rule percent_at_Some(2))
    next
      case False
      with 2 have "search_percent cs = Some m" by auto
      then show ?thesis by (rule Cons.IH(2))
    qed }
qed

lemma in_dropWhile: "c \<in> set s \<Longrightarrow> \<not> P c \<Longrightarrow> c \<in> set (dropWhile P s)"
  by (induction s) auto

lemma in_strip: "c \<in> set s \<Longrightarrow> \<not> is_space c \<Longrightarrow> c \<in> set (strip s)"
  by (simp add: strip_def in_dropWhile)

lemma set_strip: "set (strip s) \<subseteq> set s"
  by (auto simp: strip_def dest!: set_dropWhileD)

lemma digit_not_placeholder:
  assumes "c \<in> set s" "is_digit c"
  shows "s \<noteq> []" "strip s \<noteq> ''''" "strip s \<noteq> ''--''" "strip s \<noteq> ''N/A''" "strip s \<noteq> ''None''"
proof -
  have "c \<in> set (strip s)" using assms digit_not_space by (intro in_strip) auto
  then show "strip s \<noteq> ''''" "strip s \<noteq> ''--''" "strip s \<noteq> ''N/A''" "strip s \<noteq> ''None''"
    using assms(2) by (auto simp: is_digit_def)
  show "s \<noteq> []" using assms by auto
qed

lemma parse_percent:
  assumes "search_percent text = Some m"
  shows "parse_financial_value text = py_float m"
proof -
  from search_percent_Some [OF assms] obtain pre post where
    t: "text = pre @ ''('' @ m @ ''%)'' @ post" and m: "is_numeral m" by blast
  obtain c cs where "m = c # cs" "is_digit c" using numeral_head [OF m] by blast
  then have "c \<in> set text" "is_digit c" using t by simp_all
  note np = digit_not_placeholder [OF this]
  have "py_in ''('' text" "py_in ''%'' text"
    using t by (simp_all add: py_in_single)
  then show ?thesis using np assms by (simp add: parse_financial_value_def)
qed

lemma set_apply_suffix: "set (snd (apply_suffix s)) \<subseteq> set s"
  by (auto simp: apply_suffix_def dest: in_set_butlastD)

lemma parse_no_digit:
  assumes "\<forall>c\<in>set text. \<not> is_digit c"
  shows "parse_financial_value text = None"
proof -
  let ?cleaned = "strip (remove_char CHR ''%'' (remove_char CHR ''$'' (remove_char CHR '','' text)))"
  have "set ?cleaned \<subseteq> set text"
    using set_strip [of "remove_char CHR ''%'' (remove_char CHR ''$'' (remove_char CHR '','' text))"]
    by (auto simp: remove_char_def)
  then have "set (snd (apply_suffix ?cleaned)) \<subseteq> set text"
    using set_apply_suffix [of ?cleaned] by blast
  then have "search_number (snd (apply_suffix ?cleaned)) = None"
    using assms unfolding search_number_None by blast
  moreover have "search_percent text = None"
    using assms by (rule search_percent_no_digit)
  ultimately show ?thesis
    by (simp add: parse_financial_value_def case_prod_beta)
qed

lemma search_percent_chars:
  assumes "search_percent text = Some m"
  shows "py_in ''('' text" "py_in ''%'' text"
proof -
  from search_percent_Some(1) [OF assms] obtain pre post where
    "text = pre @ ''('' @ m @ ''%)'' @ post" by blast
  then show "py_in ''('' text" "py_in ''%'' text" by (simp_all add: py_in_single)
qed

lemma removals_agree:
  "remove_char CHR ''%'' (remove_char CHR ''$'' (remove_char CHR '','' s)) =
   filter (\<lambda>c. c \<notin> set ''$%,'') s"
  by (induction s) (auto simp: remove_char_def)

lemma parse_scaled:
  assumes "search_percent text = None" "strip text \<noteq> ''''" "strip text \<noteq> ''--''" "strip text \<noteq> ''N/A''" "text \<noteq> []"
  shows "parse_financial_value text =
        (case apply_suffix (strip (remove_char CHR ''%'' (remove_char CHR ''$'' (remove_char CHR '','' text)))) of
           (multiplier, cleaned') \<Rightarrow>
             (case search_number cleaned' of
                Some m \<Rightarrow> map_option (\<lambda>v. v * multiplier) (py_float m)
              | None \<Rightarrow> None))"
  unfolding parse_financial_value_def Let_def
  using assms by simp

lemma placeholder_no_digit:
  assumes "strip text \<in> set ['''', ''--'', ''N/A'', ''None'']" "c \<in> set text"
  shows "\<not> is_digit c"
proof
  assume d: "is_digit c"
  have "c \<in> set (strip text)" using assms(2) d digit_not_space by (intro in_strip) auto
  with assms(1) d show False by (auto simp: is_digit_def)
qed

lemma digit_not_special: "is_digit c \<Longrightarrow> c \<notin> set ''$%,(BMKT-''"
  by (auto simp: is_digit_def)

lemma remove_char_id: "c \<notin> set s \<Longrightarrow> remove_char c s = s"
  by (induction s) (auto simp: remove_char_def)

lemma search_percent_no_paren: "CHR ''('' \<notin> set s \<Longrightarrow> search_percent s = None"
  by (induction s) auto

lemma apply_suffix_id:
  assumes "s \<noteq> []" "last s \<notin> set ''BMKT''"
  shows "apply_suffix s = (1, s)"
  using assms by (simp add: apply_suffix_def ends_with_char_def)

text \<open>A text of digits, dots and minus signs with a digit in it goes to the number search untouched.\<close>
lemma parse_plain:
  assumes chars: "\<And>x. x \<in> set t \<Longrightarrow> is_digit x \<or> x = CHR ''.'' \<or> x = CHR ''-''"
    and dig: "c \<in> set t" "is_digit c"
  shows "parse_financial_value t =
           (case search_number t of
              Some m \<Rightarrow> map_option (\<lambda>v. v * 1) (py_float m)
            | None \<Rightarrow> None)"
proof -
  have special: "x \<notin> set t" if "x \<in> set ''$%,(BMKT''" for x
    using chars [of x] that digit_not_special [of x] by auto
  have sp: "\<not> is_space x" if "x \<in> set t" for x
    using chars [OF that] digit_not_space [of x] by auto
  have ne: "t \<noteq> []" using dig(1) by auto
  then have "hd t \<in> set t" "last t \<in> set t" by simp_all
  then have st: "strip t = t" using ne sp by (intro strip_id) auto
  have rm: "remove_char CHR ''%'' (remove_char CHR ''$'' (remove_char CHR '','' t)) = t"
    using special by (simp add: remove_char_id)
  have "last t \<notin> set ''BMKT''"
    using special \<open>last t \<in> set t\<close> by auto
  then have sfx: "apply_suffix t = (1, t)" using ne by (rule apply_suffix_id [rotated])
  have "search_percent t = None"
    using special by (intro search_percent_no_paren) auto
  from parse_scaled [OF this digit_not_placeholder(2,3,4) [OF dig] ne]
  show ?thesis unfolding rm st sfx by simp
qed

lemma parse_numeral:
  assumes "is_numeral s"
  shows "parse_financial_value s = py_float s"
proof -
  obtain c cs where s: "s = c # cs" and c: "is_digit c"
    using numeral_head [OF assms] by blast
  have "search_number s = Some s"
    using s c take_number_numeral [OF assms] by simp
  moreover have "c \<in> set s" using s by simp
  moreover have "\<And>x. x \<in> set s \<Longrightarrow> is_digit x \<or> x = CHR ''.'' \<or> x = CHR ''-''"
    using numeral_chars [OF assms] by auto
  ultimately show ?thesis
    using parse_plain [of s c] c
    by (simp add: option.map_ident)
qed

lemma parse_minus_numeral:
  assumes "is_numeral s"
  shows "parse_financial_value (CHR ''-'' # s) = py_float s"
proof -
  obtain c cs where s: "s = c # cs" and c: "is_digit c"
    using numeral_head [OF assms] by blast
  have "search_number (CHR ''-'' # s) = Some s"
    using s c take_number_numeral [OF assms] by simp
  moreover have "c \<in> set (CHR ''-'' # s)" using s by simp
  moreover have "\<And>x. x \<in> set (CHR ''-'' # s) \<Longrightarrow> is_digit x \<or> x = CHR ''.'' \<or> x = CHR ''-''"
    using numeral_chars [OF assms] by auto
  ultimately show ?thesis
    using parse_plain [of "CHR ''-'' # s" c] c
    by (simp add: option.map_ident)
qed

subsection \<open>The scanner of the code meets the words of the specification\<close>

lemma has_percentage_iff: "has_percentage t \<longleftrightarrow> search_percent t \<noteq> None"
proof
  assume "has_percentage t"
  then obtain pre num post where "t = pre @ ''('' @ num @ ''%)'' @ post" "is_numeral num"
    unfolding has_percentage_def by blast
  from search_percent_leftmost [OF this] show "search_percent t \<noteq> None" by auto
next
  assume "search_percent t \<noteq> None"
  then obtain m where m: "search_percent t = Some m" by blast
  from search_percent_Some [OF m] show "has_percentage t"
    unfolding has_percentage_def by blast
qed

lemma apply_suffix_magnitude: "apply_suffix s = magnitude s"
proof -
  consider "s = []" | "s \<noteq> []" "last s = CHR ''B''" | "s \<noteq> []" "last s = CHR ''M''"
    | "s \<noteq> []" "last s = CHR ''K''" | "s \<noteq> []" "last s = CHR ''T''"
    | "s \<noteq> []" "last s \<noteq> CHR ''B''" "last s \<noteq> CHR ''M''" "last s \<noteq> CHR ''K''"
      "last s \<noteq> CHR ''T''"
    by blast
  then show ?thesis
    by cases
      (simp_all add: apply_suffix_def ends_with_char_def magnitude_suffixes_def magnitude_def)
qed

text \<open>The greedy match stops exactly where a numeral cannot be extended.\<close>
lemma take_number_maximal:
  assumes "is_numeral m"
    and "\<forall>c r. post = c # r \<longrightarrow> \<not> is_digit c \<and> (c = CHR ''.'' \<longrightarrow> CHR ''.'' \<in> set m)"
  shows "take_number (m @ post) = (m, post)"
proof (cases post)
  case Nil
  then show ?thesis using take_number_numeral [OF assms(1)] by simp
next
  case (Cons y ys)
  with assms(2) have y: "\<not> is_digit y" "y = CHR ''.'' \<Longrightarrow> CHR ''.'' \<in> set m" by auto
  from assms(1) show ?thesis
  proof (cases rule: is_numeral_cases)
    case int
    then have "CHR ''.'' \<notin> set m" by (auto simp: list_all_iff)
    with y have "y \<noteq> CHR ''.''" by blast
    with take_number_numeral_then [OF assms(1) y(1)] Cons show ?thesis by simp
  next
    case (frac d1 d2)
    then show ?thesis using y(1) Cons
      by (simp add: take_number_def takeWhile_all_then dropWhile_all_then)
  qed
qed

lemma search_number_skip:
  "\<forall>c\<in>set pre. \<not> is_digit c \<Longrightarrow> search_number (pre @ s) = search_number s"
  by (induction pre) auto

lemma take_number_rest:
  assumes "snd (take_number s) = c # r"
  shows "\<not> is_digit c \<and> (c = CHR ''.'' \<longrightarrow> CHR ''.'' \<in> set (fst (take_number s)))"
proof (cases "dropWhile is_digit s")
  case Nil
  show ?thesis using assms unfolding take_number_def Let_def Nil by simp
next
  case (Cons y r2)
  have y: "\<not> is_digit y" using Cons hd_dropWhile [of is_digit s] by auto
  show ?thesis
  proof (cases "y = CHR ''.''")
    case True
    then have "dropWhile is_digit r2 = c # r" "CHR ''.'' \<in> set (fst (take_number s))"
      using assms unfolding take_number_def Let_def Cons by simp_all
    then show ?thesis using hd_dropWhile [of is_digit r2] by auto
  next
    case False
    then have "c = y" using assms unfolding take_number_def Let_def Cons by simp
    then show ?thesis using y False by simp
  qed
qed

lemma first_numeral_iff: "first_numeral s m \<longleftrightarrow> search_number s = Some m"
proof
  assume "first_numeral s m"
  then obtain pre post where s: "s = pre @ m @ post" and pre: "\<forall>c\<in>set pre. \<not> is_digit c"
    and m: "is_numeral m"
    and mx: "\<forall>c r. post = c # r \<longrightarrow> \<not> is_digit c \<and> (c = CHR ''.'' \<longrightarrow> CHR ''.'' \<in> set m)"
    unfolding first_numeral_def by blast
  obtain c cs where c: "m = c # cs" "is_digit c" using numeral_head [OF m] by blast
  have "search_number s = search_number (m @ post)"
    unfolding s using pre by (rule search_number_skip)
  also have "\<dots> = Some (fst (take_number (m @ post)))" using c by simp
  also have "\<dots> = Some m" using take_number_maximal [OF m mx] by simp
  finally show "search_number s = Some m" .
next
  assume "search_number s = Some m"
  then show "first_numeral s m"
  proof (induction s)
    case Nil
    then show ?case by simp
  next
    case (Cons c cs)
    show ?case
    proof (cases "is_digit c")
      case True
      with Cons.prems have m: "m = fst (take_number (c # cs))" by simp
      define post where "post = snd (take_number (c # cs))"
      have "c # cs = [] @ m @ post" "is_numeral m"
        using take_number_split [OF refl True, of cs] m post_def by simp_all
      moreover have "\<not> is_digit x \<and> (x = CHR ''.'' \<longrightarrow> CHR ''.'' \<in> set m)"
        if "post = x # r" for x r
        using take_number_rest [of "c # cs" x r] that m post_def by simp
      then have "\<forall>x r. post = x # r \<longrightarrow> \<not> is_digit x \<and> (x = CHR ''.'' \<longrightarrow> CHR ''.'' \<in> set m)"
        by blast
      ultimately show ?thesis unfolding first_numeral_def by (intro exI [of _ "[]"] exI [of _ post]) simp
    next
      case False
      with Cons.prems have "search_number cs = Some m" by simp
      from Cons.IH [OF this] obtain pre post where
        h: "cs = pre @ m @ post" "\<forall>x\<in>set pre. \<not> is_digit x" "is_numeral m"
           "\<forall>x r. post = x # r \<longrightarrow> \<not> is_digit x \<and> (x = CHR ''.'' \<longrightarrow> CHR ''.'' \<in> set m)"
        unfolding first_numeral_def by blast
      show ?thesis unfolding first_numeral_def
        using h False by (intro exI [of _ "c # pre"] exI [of _ post]) simp
    qed
  qed
qed

lemma set_magnitude: "set (snd (magnitude s)) \<subseteq> set s"
  using set_apply_suffix [of s] by (simp add: apply_suffix_magnitude)

lemma first_numeral_numeral: "first_numeral s m \<Longrightarrow> is_numeral m"
  unfolding first_numeral_def by blast

text \<open>Without a percentage in parentheses the result is the first numeral, scaled.\<close>
lemma parse_otherwise:
  assumes "\<not> has_percentage t"
  shows "parse_financial_value t =
           (case search_number (snd (magnitude (strip (filter (\<lambda>c. c \<notin> set ''$%,'') t)))) of
              Some m \<Rightarrow>
                map_option (\<lambda>v. v * fst (magnitude (strip (filter (\<lambda>c. c \<notin> set ''$%,'') t))))
                  (py_float m)
            | None \<Rightarrow> None)"
proof -
  let ?cleaned = "strip (filter (\<lambda>c. c \<notin> set ''$%,'') t)"
  have sp: "search_percent t = None" using assms has_percentage_iff by blast
  show ?thesis
  proof (cases "t = [] \<or> strip t \<in> set ['''', ''--'', ''N/A'']")
    case True
    then have "strip t \<in> set ['''', ''--'', ''N/A'', ''None'']" by (auto simp: strip_def)
    then have nd: "\<forall>c\<in>set t. \<not> is_digit c" using placeholder_no_digit by blast
    have "set (snd (magnitude ?cleaned)) \<subseteq> set t"
      using set_magnitude [of ?cleaned] set_strip [of "filter (\<lambda>c. c \<notin> set ''$%,'') t"] by auto
    then have "search_number (snd (magnitude ?cleaned)) = None"
      using nd unfolding search_number_None by blast
    then show ?thesis using parse_no_digit [OF nd] by simp
  next
    case False
    then have np: "strip t \<noteq> ''''" "strip t \<noteq> ''--''" "strip t \<noteq> ''N/A''" and ne: "t \<noteq> []"
      by simp_all
    show ?thesis
      unfolding parse_scaled [OF sp np ne] removals_agree apply_suffix_magnitude
      by (simp only: case_prod_beta)
  qed
qed

section \<open>The value normalizer: claims C2, C3 and C6\<close>

text \<open>
  Claim C2, as the code has it. The claim as stated, that every input with a percentage
  in parentheses gives the percentage number, fails where the percentage carries a
  sign: the pattern admits digits and a dot only, so \<open>"1.04 (-0.51%)"\<close> gives 1.04.
\<close>

theorem C2_signed_percentage_counterexample:
  "py_float ''-0.51'' = Some (- (51 / 100)) \<and>
   parse_financial_value (''1.04 '' @ ''('' @ ''-0.51'' @ ''%)'') = Some (26 / 25)"
  by code_simp

text \<open>
  Claim C2, amended. For every input that contains a parenthesized percentage written
  as an unsigned numeral, \<open>(num%)\<close>, the normalizer returns the number of the leftmost
  such percentage. For every other input it removes \<open>$\<close>, \<open>%\<close> and the thousands
  separator, trims, takes a trailing K, M, B or T as a multiplier of 1e3, 1e6, 1e9 or
  1e12, and returns the first numeric substring of what is left times the multiplier;
  it returns null when no digit is left. The four examples hold: \<open>"1.04 (0.51%)"\<close>
  gives 0.51, \<open>"$2.5B"\<close> 2500000000, \<open>"750K"\<close> 750000 and \<open>"1.2T"\<close> 1200000000000.
\<close>

theorem C2_normalizer_unsigned_percentage:
  "(is_numeral num \<longrightarrow>
      (\<exists>pre' num' post' v.
          pre @ ''('' @ num @ ''%)'' @ post = pre' @ ''('' @ num' @ ''%)'' @ post' \<and>
          is_numeral num' \<and> length pre' \<le> length pre \<and>
          py_float num' = Some v \<and>
          parse_financial_value (pre @ ''('' @ num @ ''%)'' @ post) = Some v)) \<and>
   (\<not> has_percentage t \<longrightarrow>
      (let cleaned = strip (filter (\<lambda>c. c \<notin> set ''$%,'') t);
           (k, body) = magnitude cleaned
       in ((\<forall>c\<in>set body. \<not> is_digit c) \<longrightarrow> parse_financial_value t = None) \<and>
          ((\<exists>c\<in>set body. is_digit c) \<longrightarrow> (\<exists>m. first_numeral body m)) \<and>
          (\<forall>m. first_numeral body m \<longrightarrow>
               (\<exists>v. py_float m = Some v \<and> 0 \<le> v \<and>
                    parse_financial_value t = Some (v * k))))) \<and>
   parse_financial_value ''1.04 (0.51%)'' = Some (51 / 100) \<and>
   parse_financial_value ''$2.5B'' = Some 2500000000 \<and>
   parse_financial_value ''750K'' = Some 750000 \<and>
   parse_financial_value ''1.2T'' = Some 1200000000000"
proof (intro conjI impI)
  assume num: "is_numeral num"
  let ?t = "pre @ ''('' @ num @ ''%)'' @ post"
  from search_percent_leftmost [OF refl num, of pre post]
  obtain pre' num' post' where
    h: "?t = pre' @ ''('' @ num' @ ''%)'' @ post'" "is_numeral num'"
       "length pre' \<le> length pre" "search_percent ?t = Some num'"
    by blast
  from py_float_numeral [OF h(2)] obtain v where v: "py_float num' = Some v" by blast
  have "parse_financial_value ?t = Some v"
    using parse_percent [OF h(4)] v by simp
  with h v show "\<exists>pre' num' post' v.
          ?t = pre' @ ''('' @ num' @ ''%)'' @ post' \<and>
          is_numeral num' \<and> length pre' \<le> length pre \<and>
          py_float num' = Some v \<and> parse_financial_value ?t = Some v"
    by blast
next
  assume np: "\<not> has_percentage t"
  define cleaned where "cleaned = strip (filter (\<lambda>c. c \<notin> set ''$%,'') t)"
  define k where "k = fst (magnitude cleaned)"
  define body where "body = snd (magnitude cleaned)"
  have p: "parse_financial_value t =
      (case search_number body of
         Some m \<Rightarrow> map_option (\<lambda>v. v * k) (py_float m)
       | None \<Rightarrow> None)"
    unfolding body_def k_def cleaned_def by (rule parse_otherwise [OF np])
  have a: "parse_financial_value t = None" if "\<forall>c\<in>set body. \<not> is_digit c"
    using that p search_number_None [of body] by simp
  have b: "\<exists>m. first_numeral body m" if "\<exists>c\<in>set body. is_digit c"
  proof -
    from that have "search_number body \<noteq> None" using search_number_None [of body] by blast
    then show ?thesis using first_numeral_iff by blast
  qed
  have c: "\<exists>v. py_float m = Some v \<and> 0 \<le> v \<and> parse_financial_value t = Some (v * k)"
    if "first_numeral body m" for m
  proof -
    from that have s: "search_number body = Some m" using first_numeral_iff by blast
    from py_float_numeral [OF first_numeral_numeral [OF that]]
    obtain v where "py_float m = Some v" "0 \<le> v" by blast
    then show ?thesis using p s by simp
  qed
  have "((\<forall>c\<in>set body. \<not> is_digit c) \<longrightarrow> parse_financial_value t = None) \<and>
        ((\<exists>c\<in>set body. is_digit c) \<longrightarrow> (\<exists>m. first_numeral body m)) \<and>
        (\<forall>m. first_numeral body m \<longrightarrow>
             (\<exists>v. py_float m = Some v \<and> 0 \<le> v \<and> parse_financial_value t = Some (v * k)))"
    using a b c by blast
  then show "let cleaned = strip (filter (\<lambda>c. c \<notin> set ''$%,'') t);
           (k, body) = magnitude cleaned
       in ((\<forall>c\<in>set body. \<not> is_digit c) \<longrightarrow> parse_financial_value t = None) \<and>
          ((\<exists>c\<in>set body. is_digit c) \<longrightarrow> (\<exists>m. first_numeral body m)) \<and>
          (\<forall>m. first_numeral body m \<longrightarrow>
               (\<exists>v. py_float m = Some v \<and> 0 \<le> v \<and>
                    parse_financial_value t = Some (v * k)))"
    unfolding Let_def case_prod_beta body_def k_def cleaned_def .
next
  show "parse_financial_value ''1.04 (0.51%)'' = Some (51 / 100)" by code_simp
next
  show "parse_financial_value ''$2.5B'' = Some 2500000000" by code_simp
next
  show "parse_financial_value ''750K'' = Some 750000" by code_simp
next
  show "parse_financial_value ''1.2T'' = Some 1200000000000" by code_simp
qed

theorem C2_normalizer_unsigned_percentage_witness:
  "is_numeral ''0.51'' \<and>
   (\<exists>pre' num' post' v.
      ''1.04 '' @ ''('' @ ''0.51'' @ ''%)'' @ '''' = pre' @ ''('' @ num' @ ''%)'' @ post' \<and>
      is_numeral num' \<and> length pre' \<le> length ''1.04 '' \<and>
      py_float num' = Some v \<and>
      parse_financial_value (''1.04 '' @ ''('' @ ''0.51'' @ ''%)'' @ '''') = Some v) \<and>
   \<not> has_percentage ''$2.5B'' \<and>
   (\<exists>v. py_float ''2.5'' = Some v \<and> 0 \<le> v \<and>
        parse_financial_value ''$2.5B'' = Some (v * 10 ^ 9))"
proof -
  have n: "is_numeral ''0.51''" by code_simp
  have np: "\<not> has_percentage ''$2.5B''"
    unfolding has_percentage_iff by code_simp
  have mg: "magnitude (strip (filter (\<lambda>c. c \<notin> set ''$%,'') ''$2.5B'')) = (10 ^ 9, ''2.5'')"
    by code_simp
  have fn: "first_numeral ''2.5'' ''2.5''"
    unfolding first_numeral_iff by code_simp
  note inst = C2_normalizer_unsigned_percentage [of "''0.51''" "''1.04 ''" "''''" "''$2.5B''"]
  have one: "\<exists>pre' num' post' v.
      ''1.04 '' @ ''('' @ ''0.51'' @ ''%)'' @ '''' = pre' @ ''('' @ num' @ ''%)'' @ post' \<and>
      is_numeral num' \<and> length pre' \<le> length ''1.04 '' \<and>
      py_float num' = Some v \<and>
      parse_financial_value (''1.04 '' @ ''('' @ ''0.51'' @ ''%)'' @ '''') = Some v"
    using n inst by blast
  have two: "\<exists>v. py_float ''2.5'' = Some v \<and> 0 \<le> v \<and>
        parse_financial_value ''$2.5B'' = Some (v * 10 ^ 9)"
  proof -
    note oth = mp [OF conjunct1 [OF conjunct2 [OF inst]] np]
    note all = conjunct2 [OF conjunct2 [OF oth [unfolded Let_def mg prod.case]]]
    show ?thesis using all fn by blast
  qed
  show ?thesis using n np one two by blast
qed

text \<open>
  Claim C3. The value normalizer returns null for each of the placeholder strings
  \<open>""\<close>, \<open>"--"\<close>, \<open>"N/A"\<close> and \<open>"None"\<close>, and for every input without a digit, that
  is, without a numeric substring.
\<close>

theorem C3_placeholders_and_no_number_give_null:
  "parse_financial_value '''' = None \<and>
   parse_financial_value ''--'' = None \<and>
   parse_financial_value ''N/A'' = None \<and>
   parse_financial_value ''None'' = None \<and>
   ((\<forall>c\<in>set text. \<not> is_digit c) \<longrightarrow> parse_financial_value text = None)"
proof (intro conjI impI)
  show "parse_financial_value '''' = None" by code_simp
next
  show "parse_financial_value ''--'' = None" by code_simp
next
  show "parse_financial_value ''N/A'' = None" by code_simp
next
  show "parse_financial_value ''None'' = None" by code_simp
next
  assume "\<forall>c\<in>set text. \<not> is_digit c"
  then show "parse_financial_value text = None" by (rule parse_no_digit)
qed

theorem C3_placeholders_and_no_number_give_null_witness:
  "parse_financial_value ''n/a (TTM)'' = None"
proof -
  have h: "\<forall>c\<in>set ''n/a (TTM)''. \<not> is_digit c" by (simp add: is_digit_def)
  show ?thesis
    using h C3_placeholders_and_no_number_give_null [of "''n/a (TTM)''"] by blast
qed

text \<open>
  Claim C6. The numeric pattern does not capture a leading minus sign: for a minus sign
  followed by a numeral the normalizer returns the value of the numeral, which is not
  negative and is what it returns for the numeral without the sign; \<open>"-3.50"\<close> gives 3.5.
\<close>

theorem C6_leading_minus_is_dropped:
  "(is_numeral s \<longrightarrow>
      (\<exists>v. py_float s = Some v \<and> 0 \<le> v \<and>
           parse_financial_value (CHR ''-'' # s) = Some v \<and>
           parse_financial_value s = Some v)) \<and>
   parse_financial_value ''-3.50'' = Some (7 / 2)"
proof (intro conjI impI)
  assume s: "is_numeral s"
  from py_float_numeral [OF s] obtain v where v: "py_float s = Some v" "0 \<le> v" by blast
  then show "\<exists>v. py_float s = Some v \<and> 0 \<le> v \<and>
           parse_financial_value (CHR ''-'' # s) = Some v \<and>
           parse_financial_value s = Some v"
    using parse_minus_numeral [OF s] parse_numeral [OF s] by simp
next
  show "parse_financial_value ''-3.50'' = Some (7 / 2)" by code_simp
qed

theorem C6_leading_minus_is_dropped_witness:
  "is_numeral ''3.50'' \<and>
   (\<exists>v. py_float ''3.50'' = Some v \<and> 0 \<le> v \<and>
        parse_financial_value (CHR ''-'' # ''3.50'') = Some v \<and>
        parse_financial_value ''3.50'' = Some v)"
proof -
  have n: "is_numeral ''3.50''" by code_simp
  show ?thesis
    using n C6_leading_minus_is_dropped [of "''3.50''"] by blast
qed

section \<open>The keyword sentiment fallback: claim C7\<close>

lemma py_in_iff: "py_in sub s \<longleftrightarrow> contains_word s sub"
proof (induction s)
  case Nil
  then show ?case by (auto simp: contains_word_def)
next
  case (Cons c cs)
  show ?case
  proof
    assume "py_in sub (c # cs)"
    then consider "starts_with (c # cs) sub" | "py_in sub cs" by auto
    then show "contains_word (c # cs) sub"
    proof cases
      case 1
      then obtain r where "c # cs = [] @ sub @ r" unfolding starts_with_append by auto
      then show ?thesis unfolding contains_word_def by blast
    next
      case 2
      then obtain pre post where "cs = pre @ sub @ post"
        using Cons.IH unfolding contains_word_def by blast
      then have "c # cs = (c # pre) @ sub @ post" by simp
      then show ?thesis unfolding contains_word_def by blast
    qed
  next
    assume "contains_word (c # cs) sub"
    then obtain pre post where h: "c # cs = pre @ sub @ post"
      unfolding contains_word_def by blast
    show "py_in sub (c # cs)"
    proof (cases pre)
      case Nil
      then have "starts_with (c # cs) sub" using h unfolding starts_with_append by auto
      then show ?thesis by simp
    next
      case (Cons x xs)
      then have "cs = xs @ sub @ post" using h by simp
      then have "contains_word cs sub" unfolding contains_word_def by blast
      then show ?thesis using Cons.IH by simp
    qed
  qed
qed

lemma keyword_count_found:
  assumes "distinct words"
  shows "keyword_count words t = words_found words t"
proof -
  have "{w \<in> set words. contains_word t w} = set (filter (\<lambda>w. py_in w t) words)"
    by (auto simp: py_in_iff)
  moreover have "card (set (filter (\<lambda>w. py_in w t) words)) = length (filter (\<lambda>w. py_in w t) words)"
    using assms by (intro distinct_card) simp
  ultimately show ?thesis
    unfolding keyword_count_def words_found_def by presburger
qed

lemma positive_found: "keyword_count positive_words t = words_found positive_words t"
  by (rule keyword_count_found) (simp add: positive_words_def)

lemma negative_found: "keyword_count negative_words t = words_found negative_words t"
  by (rule keyword_count_found) (simp add: negative_words_def)

lemma fallback_sentiment:
  "sentiment (parse_sentiment_fallback t) =
     (if words_found positive_words (lower t) > words_found negative_words (lower t)
      then ''positive''
      else if words_found negative_words (lower t) > words_found positive_words (lower t)
      then ''negative'' else ''neutral'')"
  by (simp add: parse_sentiment_fallback_def Let_def positive_found negative_found)

lemma fallback_confidence:
  "confidence (parse_sentiment_fallback t) =
     (if words_found positive_words (lower t) = words_found negative_words (lower t)
      then 5 / 10
      else min (8 / 10) (5 / 10 + (1 / 10) *
             of_int \<bar>int (words_found positive_words (lower t)) -
                     int (words_found negative_words (lower t))\<bar>))"
  by (simp add: parse_sentiment_fallback_def Let_def positive_found negative_found)

lemma fallback_three_one:
  assumes "words_found positive_words (lower t) = 3" "words_found negative_words (lower t) = 1"
  shows "sentiment (parse_sentiment_fallback t) = ''positive''"
    and "confidence (parse_sentiment_fallback t) = 7 / 10"
  unfolding fallback_sentiment fallback_confidence using assms by simp_all

text \<open>
  Claim C7. The keyword fallback is a function of the text alone. With \<open>p\<close> and \<open>n\<close> the
  numbers of positive and negative keywords found in the lower-cased text, the sentiment
  is the majority label, neutral on a tie, and the confidence is
  \<open>min(0.8, 0.5 + 0.1 * |p - n|)\<close> when there is a majority and 0.5 on a tie. Three
  positive keywords and one negative one give positive with confidence 0.7, as the text
  \<open>Bullish! Strong buy, but weak guidance\<close> shows.
\<close>

theorem C7_keyword_fallback:
  "(let r = parse_sentiment_fallback t;
        p = words_found positive_words (lower t);
        n = words_found negative_words (lower t)
    in sentiment r = (if p > n then ''positive'' else if n > p then ''negative'' else ''neutral'') \<and>
       confidence r = (if p = n then 5 / 10
                       else min (8 / 10) (5 / 10 + (1 / 10) * of_int \<bar>int p - int n\<bar>)) \<and>
       (p = 3 \<and> n = 1 \<longrightarrow> sentiment r = ''positive'' \<and> confidence r = 7 / 10)) \<and>
   sentiment (parse_sentiment_fallback ''Bullish! Strong buy, but weak guidance'') = ''positive'' \<and>
   confidence (parse_sentiment_fallback ''Bullish! Strong buy, but weak guidance'') = 7 / 10"
proof -
  have ex: "words_found positive_words (lower ''Bullish! Strong buy, but weak guidance'') = 3"
    "words_found negative_words (lower ''Bullish! Strong buy, but weak guidance'') = 1"
    unfolding positive_found [symmetric] negative_found [symmetric] by code_simp+
  show ?thesis
    unfolding Let_def
    using fallback_sentiment [of t] fallback_confidence [of t] fallback_three_one [of t]
      fallback_three_one [OF ex]
    by simp
qed

theorem C7_keyword_fallback_witness:
  "words_found positive_words (lower ''to the moon: buy, great; SELL later'') = 3 \<and>
   words_found negative_words (lower ''to the moon: buy, great; SELL later'') = 1 \<and>
   sentiment (parse_sentiment_fallback ''to the moon: buy, great; SELL later'') = ''positive'' \<and>
   confidence (parse_sentiment_fallback ''to the moon: buy, great; SELL later'') = 7 / 10"
proof -
  have ex:
    "words_found positive_words (lower ''to the moon: buy, great; SELL later'') = 3"
    "words_found negative_words (lower ''to the moon: buy, great; SELL later'') = 1"
    unfolding positive_found [symmetric] negative_found [symmetric] by code_simp+
  show ?thesis
    using ex C7_keyword_fallback [of "''to the moon: buy, great; SELL later''"]
    by (simp add: Let_def)
qed

section \<open>The 52-week range: claims C4 and C9\<close>

lemma split_on_nonempty: "split_on c s \<noteq> []"
proof (cases s)
  case Nil
  then show ?thesis by simp
next
  case (Cons x xs)
  then show ?thesis by (cases "split_on c xs") simp_all
qed

lemma split_on_one: "split_on c s = [a] \<longleftrightarrow> s = a \<and> c \<notin> set a"
proof (induction s arbitrary: a)
  case Nil
  then show ?case by auto
next
  case (Cons x xs)
  show ?case
  proof (cases "x = c")
    case True
    then show ?thesis using split_on_nonempty [of c xs] by auto
  next
    case False
    obtain p ps where sp: "split_on c xs = p # ps"
      using split_on_nonempty [of c xs] by (cases "split_on c xs") auto
    have "split_on c (x # xs) = (x # p) # ps" using False sp by simp
    then have "split_on c (x # xs) = [a] \<longleftrightarrow> a = x # p \<and> ps = []" by auto
    also have "\<dots> \<longleftrightarrow> (\<exists>p'. a = x # p' \<and> split_on c xs = [p'])" using sp by auto
    also have "\<dots> \<longleftrightarrow> (\<exists>p'. a = x # p' \<and> xs = p' \<and> c \<notin> set p')" using Cons.IH by simp
    also have "\<dots> \<longleftrightarrow> x # xs = a \<and> c \<notin> set a" using False by auto
    finally show ?thesis .
  qed
qed

lemma split_on_first:
  "c \<notin> set a \<Longrightarrow> split_on c (a @ c # b) = a # split_on c b"
proof (induction a)
  case Nil
  then show ?case by simp
next
  case (Cons x xs)
  then have "x \<noteq> c" "split_on c (xs @ c # b) = xs # split_on c b" by auto
  then show ?case by simp
qed

text \<open>The range block on a text whose first hyphen stands between \<open>a\<close> and \<open>b\<close>.\<close>
lemma range_first_hyphen:
  assumes "strip t = a @ ''-'' @ b" "CHR ''-'' \<notin> set a"
  shows "range_from_text (Some t) =
           (if CHR ''-'' \<in> set b then None
            else (case (parse_financial_value (strip a), parse_financial_value (strip b)) of
                    (Some lo, Some hi) \<Rightarrow>
                      if lo \<noteq> 0 \<and> hi \<noteq> 0 then Some \<lparr>high = hi, low = lo\<rparr> else None
                  | _ \<Rightarrow> None))"
proof -
  have "CHR ''-'' \<in> set (strip t)" using assms(1) by simp
  then have "CHR ''-'' \<in> set t" using set_strip [of t] by blast
  then have guard: "t \<noteq> []" "py_in ''-'' t" by (auto simp: py_in_single)
  have sp: "split_on CHR ''-'' (strip t) = a # split_on CHR ''-'' b"
    using assms split_on_first [of "CHR ''-''" a b] by simp
  show ?thesis
  proof (cases "CHR ''-'' \<in> set b")
    case True
    then have ns: "split_on CHR ''-'' b \<noteq> [b']" for b'
      using split_on_one [of "CHR ''-''" b b'] by auto
    obtain p q qs where "split_on CHR ''-'' b = p # q # qs"
    proof (cases "split_on CHR ''-'' b")
      case Nil
      then show ?thesis using split_on_nonempty [of "CHR ''-''" b] by simp
    next
      case (Cons p ps)
      then show ?thesis using ns [of p] that by (cases ps) auto
    qed
    then have "split_on CHR ''-'' (strip t) = a # p # q # qs" using sp by simp
    then have "range_from_text (Some t) = None"
      using guard by (simp add: range_from_text_def)
    then show ?thesis using True by simp
  next
    case False
    then have "split_on CHR ''-'' b = [b]" using split_on_one [of "CHR ''-''" b b] by simp
    then show ?thesis using guard sp False by (simp add: range_from_text_def)
  qed
qed

lemma range_no_hyphen: "CHR ''-'' \<notin> set t \<Longrightarrow> range_from_text (Some t) = None"
  by (simp add: range_from_text_def py_in_single)

lemma range_nonzero:
  assumes "range_from_text x = Some r"
  shows "low r \<noteq> 0 \<and> high r \<noteq> 0"
  using assms
  by (auto simp: range_from_text_def split: option.splits if_splits list.splits)

text \<open>
  Claim C4, as the code has it. The claim as stated, a split on the first hyphen and a
  range exactly when both sides parse, fails on a text with a second hyphen: the sides
  of the first hyphen of \<open>"1 - 2 - 3"\<close> parse to 1 and 2, and no range is built, because
  the code splits on every hyphen and wants exactly two parts.
\<close>

theorem C4_second_hyphen_counterexample:
  "parse_financial_value (strip ''1 '') = Some 1 \<and>
   parse_financial_value (strip '' 2 - 3'') = Some 2 \<and>
   range_from_text (Some (''1 '' @ ''-'' @ '' 2 - 3'')) = None"
  by code_simp

text \<open>
  Claim C4, amended. The range parser splits the trimmed text on every hyphen and wants
  exactly two parts. With \<open>a\<close> the text before the first hyphen and \<open>b\<close> the text after
  it: a range is built only if \<open>b\<close> has no further hyphen and both sides parse, and its
  bounds are then the two parsed numbers; it is built whenever, in addition, both numbers
  are non-zero; a text without a hyphen, or without text content, gives no range; and
  \<open>"120.00 - 130.00"\<close> gives low 120 and high 130.
\<close>

theorem C4_range_parser:
  "(strip t = a @ ''-'' @ b \<and> CHR ''-'' \<notin> set a \<and> range_from_text (Some t) = Some r \<longrightarrow>
      CHR ''-'' \<notin> set b \<and>
      parse_financial_value (strip a) = Some (low r) \<and>
      parse_financial_value (strip b) = Some (high r)) \<and>
   (strip t = a @ ''-'' @ b \<and> CHR ''-'' \<notin> set a \<and> CHR ''-'' \<notin> set b \<and>
    parse_financial_value (strip a) = Some lo \<and> parse_financial_value (strip b) = Some hi \<and>
    lo \<noteq> 0 \<and> hi \<noteq> 0 \<longrightarrow>
      range_from_text (Some t) = Some \<lparr>high = hi, low = lo\<rparr>) \<and>
   (CHR ''-'' \<notin> set t \<longrightarrow> range_from_text (Some t) = None) \<and>
   range_from_text None = None \<and>
   range_from_text (Some ''120.00 - 130.00'') = Some \<lparr>high = 130, low = 120\<rparr>"
proof (intro conjI impI)
  assume h: "strip t = a @ ''-'' @ b \<and> CHR ''-'' \<notin> set a \<and> range_from_text (Some t) = Some r"
  then have f: "range_from_text (Some t) =
           (if CHR ''-'' \<in> set b then None
            else (case (parse_financial_value (strip a), parse_financial_value (strip b)) of
                    (Some lo, Some hi) \<Rightarrow>
                      if lo \<noteq> 0 \<and> hi \<noteq> 0 then Some \<lparr>high = hi, low = lo\<rparr> else None
                  | _ \<Rightarrow> None))"
    using range_first_hyphen by blast
  from h f show "CHR ''-'' \<notin> set b" by (auto split: if_splits)
  from h f show "parse_financial_value (strip a) = Some (low r)"
    by (auto split: if_splits option.splits)
  from h f show "parse_financial_value (strip b) = Some (high r)"
    by (auto split: if_splits option.splits)
next
  assume h: "strip t = a @ ''-'' @ b \<and> CHR ''-'' \<notin> set a \<and> CHR ''-'' \<notin> set b \<and>
    parse_financial_value (strip a) = Some lo \<and> parse_financial_value (strip b) = Some hi \<and>
    lo \<noteq> 0 \<and> hi \<noteq> 0"
  then show "range_from_text (Some t) = Some \<lparr>high = hi, low = lo\<rparr>"
    using range_first_hyphen [of t a b] by simp
next
  assume "CHR ''-'' \<notin> set t"
  then show "range_from_text (Some t) = None" by (rule range_no_hyphen)
next
  show "range_from_text None = None" by (simp add: range_from_text_def)
next
  show "range_from_text (Some ''120.00 - 130.00'') = Some \<lparr>high = 130, low = 120\<rparr>"
    by code_simp
qed

theorem C4_range_parser_witness:
  "range_from_text (Some ''  98.5 - 1,204.75 '') = Some \<lparr>high = 4819 / 4, low = 197 / 2\<rparr> \<and>
   range_from_text (Some ''120.00 to 130.00'') = None"
proof -
  have s: "strip ''  98.5 - 1,204.75 '' = ''98.5 '' @ ''-'' @ '' 1,204.75''" by code_simp
  have p: "parse_financial_value (strip ''98.5 '') = Some (197 / 2)"
    "parse_financial_value (strip '' 1,204.75'') = Some (4819 / 4)" by code_simp+
  have n: "CHR ''-'' \<notin> set ''98.5 ''" "CHR ''-'' \<notin> set '' 1,204.75''"
    "CHR ''-'' \<notin> set ''120.00 to 130.00''" by simp_all
  have z: "(197 / 2 :: rat) \<noteq> 0" "(4819 / 4 :: rat) \<noteq> 0" by simp_all
  note inst1 = C4_range_parser [of "''  98.5 - 1,204.75 ''" "''98.5 ''" "'' 1,204.75''" _
      "197 / 2" "4819 / 4"]
  note inst2 = C4_range_parser [of "''120.00 to 130.00''"]
  have one: "range_from_text (Some ''  98.5 - 1,204.75 '') = Some \<lparr>high = 4819 / 4, low = 197 / 2\<rparr>"
    using mp [OF conjunct1 [OF conjunct2 [OF inst1]]] s p n z by blast
  have two: "range_from_text (Some ''120.00 to 130.00'') = None"
    using mp [OF conjunct1 [OF conjunct2 [OF conjunct2 [OF inst2]]]] n by blast
  show ?thesis using one two by blast
qed

subsection \<open>The position in the 52-week range\<close>

lemma position_guarded:
  "position_in_range price hi lo = Inr (if hi > lo then (price - lo) / (hi - lo) else 0)"
  by (simp add: position_in_range_def py_div_def)

lemma pb_step_returns: "\<exists>m'. pb_step d m = Inr m' \<and> m' = m\<lparr>pb_ratio := pb_ratio m'\<rparr>"
proof (cases "roe d")
  case None
  then show ?thesis by (simp add: pb_step_def)
next
  case r: (Some r)
  show ?thesis
  proof (cases "eps d")
    case None
    then show ?thesis using r by (simp add: pb_step_def)
  next
    case e: (Some e)
    show ?thesis
    proof (cases "r \<noteq> 0 \<and> e \<noteq> 0")
      case False
      then show ?thesis using r e by (auto simp: pb_step_def)
    next
      case True
      show ?thesis
      proof (cases "e / r * 100 > 0")
        case True
        then show ?thesis using r e \<open>r \<noteq> 0 \<and> e \<noteq> 0\<close>
          by (simp add: pb_step_def py_div_def Let_def)
      next
        case False
        then show ?thesis using r e \<open>r \<noteq> 0 \<and> e \<noteq> 0\<close>
          by (simp add: pb_step_def py_div_def Let_def)
      qed
    qed
  qed
qed

lemma week52_step_nonzero:
  assumes "fifty_two_week_range d = Some r" "low r \<noteq> 0" "high r \<noteq> 0"
  shows "week52_step d m =
           Inr (m\<lparr>position_percent_52w :=
                     Some ((if high r > low r
                            then (current_price d - low r) / (high r - low r) else 0) * 100),
                   distance_from_52w_high := Some ((high r - current_price d) / high r * 100),
                   distance_from_52w_low := Some ((current_price d - low r) / low r * 100)\<rparr>)"
  using assms by (simp add: week52_step_def position_guarded py_div_def Let_def)

lemma valuation_nonzero_range:
  assumes "fifty_two_week_range d = Some r" "low r \<noteq> 0" "high r \<noteq> 0"
  shows "\<exists>m. valuation_body d = Inr m \<and>
           position_percent_52w m =
             Some ((if high r > low r
                    then (current_price d - low r) / (high r - low r) else 0) * 100)"
proof -
  obtain m' where "pb_step d no_metrics = Inr m'" using pb_step_returns by blast
  then show ?thesis
    by (simp add: valuation_body_def week52_step_nonzero [OF assms])
qed

text \<open>
  A range with a zero bound is beyond the claim: the extractor builds none, and on one the
  two distance ratios that follow the position divide by the bound.
\<close>
lemma valuation_zero_range:
  "calculate_valuation_metrics
     \<lparr>current_price = 5, roe = None, eps = None, dividend_yield = None, market_cap = None,
      fifty_two_week_range = Some \<lparr>high = 0, low = 0\<rparr>\<rparr> = no_metrics"
  by (simp add: calculate_valuation_metrics_def valuation_body_def pb_step_def
      dividend_step_def market_cap_step_def week52_step_def position_guarded py_div_def)

text \<open>
  Claim C9. The position in the 52-week range is guarded against division by zero: for
  every price and every pair of bounds the position is the ratio
  \<open>(price - low) / (high - low)\<close> when \<open>high > low\<close> and 0 otherwise, never the error of
  the division, also when high equals low. For every range that the extractor
  constructs, \<open>calculate_valuation_metrics\<close> does not raise and reports that position as a
  percentage.
\<close>

theorem C9_position_division_guarded:
  "position_in_range price hi lo = Inr (if hi > lo then (price - lo) / (hi - lo) else 0) \<and>
   position_in_range price lo lo = Inr 0 \<and>
   (range_from_text rtext = Some r \<and> fifty_two_week_range d = Some r \<longrightarrow>
      (\<exists>m. valuation_body d = Inr m) \<and>
      position_percent_52w (calculate_valuation_metrics d) =
        Some ((if high r > low r
               then (current_price d - low r) / (high r - low r) else 0) * 100))"
proof (intro conjI impI)
  show "position_in_range price hi lo = Inr (if hi > lo then (price - lo) / (hi - lo) else 0)"
    by (rule position_guarded)
next
  show "position_in_range price lo lo = Inr 0" by (simp add: position_guarded)
next
  assume h: "range_from_text rtext = Some r \<and> fifty_two_week_range d = Some r"
  then have nz: "low r \<noteq> 0" "high r \<noteq> 0" using range_nonzero [of rtext r] by simp_all
  from valuation_nonzero_range [OF conjunct2 [OF h] nz]
  obtain m where m: "valuation_body d = Inr m"
    "position_percent_52w m =
       Some ((if high r > low r then (current_price d - low r) / (high r - low r) else 0) * 100)"
    by blast
  show "\<exists>m. valuation_body d = Inr m" using m(1) by blast
  show "position_percent_52w (calculate_valuation_metrics d) =
        Some ((if high r > low r
               then (current_price d - low r) / (high r - low r) else 0) * 100)"
    using m by (simp add: calculate_valuation_metrics_def)
qed

theorem C9_position_division_guarded_witness:
  "range_from_text (Some ''120.00 - 130.00'') = Some \<lparr>high = 130, low = 120\<rparr> \<and>
   position_percent_52w
     (calculate_valuation_metrics
        \<lparr>current_price = 125, roe = None, eps = None, dividend_yield = None,
         market_cap = None, fifty_two_week_range = Some \<lparr>high = 130, low = 120\<rparr>\<rparr>) = Some 50"
proof -
  have t: "range_from_text (Some ''120.00 - 130.00'') = Some \<lparr>high = 130, low = 120\<rparr>"
    by code_simp
  note inst = C9_position_division_guarded [of _ _ _ "Some ''120.00 - 130.00''"
      "\<lparr>high = 130, low = 120\<rparr>"
      "\<lparr>current_price = 125, roe = None, eps = None, dividend_yield = None,
        market_cap = None, fifty_two_week_range = Some \<lparr>high = 130, low = 120\<rparr>\<rparr>"]
  have "position_percent_52w
     (calculate_valuation_metrics
        \<lparr>current_price = 125, roe = None, eps = None, dividend_yield = None,
         market_cap = None, fifty_two_week_range = Some \<lparr>high = 130, low = 120\<rparr>\<rparr>) = Some 50"
    using mp [OF conjunct2 [OF conjunct2 [OF inst]]] t by simp
  then show ?thesis using t by blast
qed

section \<open>The news collector: claim C8\<close>

lemma first_pass_article_step:
  "first_pass_article a items = items \<or> (\<exists>it. first_pass_article a items = items @ [it])"
  by (simp add: first_pass_article_def split: outcome.split option.split)

lemma first_pass_bound:
  "length items \<le> target_count \<Longrightarrow> length (first_pass as items) \<le> target_count"
proof (induction as arbitrary: items)
  case Nil
  then show ?case by simp
next
  case (Cons a as)
  show ?case
  proof (cases "length items \<ge> target_count")
    case True
    then show ?thesis using Cons.prems by simp
  next
    case False
    then have "length (first_pass_article a items) \<le> target_count"
      using first_pass_article_step [of a items] by auto
    then show ?thesis using False Cons.IH by simp
  qed
qed

lemma first_pass_full: "length items \<ge> target_count \<Longrightarrow> first_pass as items = items"
  by (cases as) simp_all

text \<open>One article after the scroll: nothing, or one item with a title not yet collected.\<close>
lemma retry_article_step:
  "retry_article a items = items \<or>
   (\<exists>it. retry_article a items = items @ [it] \<and> title it \<notin> title ` set items)"
proof -
  have "t \<notin> title ` set items" if "\<not> list_ex (\<lambda>item. title item = t) items" for t
    using that by (auto simp: list_ex_iff)
  then show ?thesis
    by (simp add: retry_article_def split: outcome.split option.split)
qed

lemma retry_articles_full: "length items \<ge> target_count \<Longrightarrow> retry_articles as items = items"
  by (cases as) simp_all

lemma retry_articles_extra:
  "\<exists>extra. retry_articles as items = items @ extra \<and>
           distinct (map title extra) \<and>
           title ` set extra \<inter> title ` set items = {} \<and>
           (length items \<le> target_count \<longrightarrow> length (items @ extra) \<le> target_count)"
proof (induction as arbitrary: items)
  case Nil
  then show ?case by simp
next
  case (Cons a as)
  show ?case
  proof (cases "length items \<ge> target_count")
    case True
    then show ?thesis by simp
  next
    case False
    from retry_article_step [of a items] show ?thesis
    proof
      assume same: "retry_article a items = items"
      from Cons.IH [of items] show ?thesis using False same by simp
    next
      assume "\<exists>it. retry_article a items = items @ [it] \<and> title it \<notin> title ` set items"
      then obtain it where it: "retry_article a items = items @ [it]"
        "title it \<notin> title ` set items" by blast
      from Cons.IH [of "items @ [it]"] obtain extra where
        e: "retry_articles as (items @ [it]) = (items @ [it]) @ extra"
           "distinct (map title extra)"
           "title ` set extra \<inter> title ` set (items @ [it]) = {}"
           "length (items @ [it]) \<le> target_count \<longrightarrow>
              length ((items @ [it]) @ extra) \<le> target_count"
        by blast
      have "retry_articles (a # as) items = items @ (it # extra)"
        using False it(1) e(1) by simp
      moreover have "distinct (map title (it # extra))"
        using e(2,3) by auto
      moreover have "title ` set (it # extra) \<inter> title ` set items = {}"
        using e(3) it(2) by auto
      moreover have "length items \<le> target_count \<longrightarrow>
          length (items @ (it # extra)) \<le> target_count"
        using e(4) False by simp
      ultimately show ?thesis by blast
    qed
  qed
qed

lemma retry_pass_extra:
  "\<exists>extra. retry_pass q sels articles items = items @ extra \<and>
           distinct (map title extra) \<and>
           title ` set extra \<inter> title ` set items = {} \<and>
           (length items \<le> target_count \<longrightarrow> length (items @ extra) \<le> target_count)"
proof (induction sels)
  case Nil
  then show ?case by simp
next
  case (Cons s sels)
  show ?case
  proof (cases "q s")
    case Raised
    then show ?thesis using Cons.IH by simp
  next
    case (Returned additional)
    show ?thesis
    proof (cases "length additional > length articles")
      case True
      then show ?thesis
        using Returned retry_articles_extra [of "drop (length articles) additional" items]
        by simp
    next
      case False
      then show ?thesis using Returned Cons.IH by simp
    qed
  qed
qed

text \<open>The collector as a whole: the first pass, then what the retry pass adds.\<close>
lemma extract_news_shape:
  "\<exists>first extra.
      extract_news page = first @ extra \<and> length first \<le> target_count \<and>
      length (first @ extra) \<le> target_count \<and>
      distinct (map title extra) \<and> title ` set extra \<inter> title ` set first = {} \<and>
      (first = [] \<or> first = first_pass (find_articles (listing page) article_selectors) [])"
proof -
  let ?articles = "find_articles (listing page) article_selectors"
  let ?first = "first_pass ?articles []"
  have fb: "length ?first \<le> target_count" by (rule first_pass_bound) simp
  have empty: ?thesis if "extract_news page = []"
    using that by (intro exI [of _ "[]"]) simp
  show ?thesis
  proof (cases "goto page")
    case Raised
    then show ?thesis using empty by (simp add: extract_news_def)
  next
    case (Returned u)
    show ?thesis
    proof (cases "?articles = []")
      case True
      then show ?thesis using empty Returned by (simp add: extract_news_def)
    next
      case False
      show ?thesis
      proof (cases "length ?first < target_count")
        case full: False
        then have "extract_news page = ?first @ []"
          using Returned False by (simp add: extract_news_def Let_def)
        then show ?thesis using fb by (intro exI [of _ ?first] exI [of _ "[]"]) simp
      next
        case True
        show ?thesis
        proof (cases "scroll page")
          case Raised
          then have "extract_news page = ?first @ []"
            using Returned False True by (simp add: extract_news_def Let_def)
          then show ?thesis using fb by (intro exI [of _ ?first] exI [of _ "[]"]) simp
        next
          case scrolled: (Returned v)
          from retry_pass_extra [of "listing_after_scroll page" article_selectors ?articles ?first]
          obtain extra where
            e: "retry_pass (listing_after_scroll page) article_selectors ?articles ?first =
                  ?first @ extra"
               "distinct (map title extra)"
               "title ` set extra \<inter> title ` set ?first = {}"
               "length (?first @ extra) \<le> target_count"
            using fb by blast
          have "extract_news page = ?first @ extra"
            using Returned False True scrolled e(1) by (simp add: extract_news_def Let_def)
          then show ?thesis using fb e(2,3,4) by (intro exI [of _ ?first] exI [of _ extra]) simp
        qed
      qed
    qed
  qed
qed

text \<open>
  Claim C8. For every news page the collector returns at most 5 items. Its result is
  what the first pass collected followed by what the one retry pass added. The first
  pass appends nothing once 5 items are collected and never holds more than 5. The
  retry pass appends an item only if its title equals the title of no item collected
  so far, so the added titles differ from each other and from the titles of the first
  pass; it too appends nothing once 5 items are collected and never exceeds 5.
\<close>

theorem C8_news_at_most_five:
  "length (extract_news page) \<le> 5 \<and>
   (\<exists>first extra.
      extract_news page = first @ extra \<and> length first \<le> 5 \<and>
      distinct (map title extra) \<and> title ` set extra \<inter> title ` set first = {} \<and>
      (first = [] \<or> first = first_pass (find_articles (listing page) article_selectors) [])) \<and>
   (length items \<ge> 5 \<longrightarrow> first_pass as items = items) \<and>
   (length items \<le> 5 \<longrightarrow> length (first_pass as items) \<le> 5) \<and>
   (retry_article a items = items \<or>
    (\<exists>it. retry_article a items = items @ [it] \<and> title it \<notin> title ` set items)) \<and>
   (length items \<ge> 5 \<longrightarrow> retry_articles as items = items) \<and>
   (length items \<le> 5 \<longrightarrow> length (retry_pass q sels articles items) \<le> 5)"
proof (intro conjI impI)
  from extract_news_shape [of page] obtain first extra where
    s: "extract_news page = first @ extra" "length first \<le> target_count"
       "length (first @ extra) \<le> target_count" "distinct (map title extra)"
       "title ` set extra \<inter> title ` set first = {}"
       "first = [] \<or> first = first_pass (find_articles (listing page) article_selectors) []"
    by blast
  show "length (extract_news page) \<le> 5" using s(1,3) by (simp add: target_count_def)
  show "\<exists>first extra.
      extract_news page = first @ extra \<and> length first \<le> 5 \<and>
      distinct (map title extra) \<and> title ` set extra \<inter> title ` set first = {} \<and>
      (first = [] \<or> first = first_pass (find_articles (listing page) article_selectors) [])"
    using s(1,2,4,5,6) unfolding target_count_def by blast
next
  assume "length items \<ge> 5"
  then show "first_pass as items = items" by (simp add: first_pass_full target_count_def)
next
  assume "length items \<le> 5"
  then show "length (first_pass as items) \<le> 5"
    using first_pass_bound [of items as] by (simp add: target_count_def)
next
  show "retry_article a items = items \<or>
    (\<exists>it. retry_article a items = items @ [it] \<and> title it \<notin> title ` set items)"
    by (rule retry_article_step)
next
  assume "length items \<ge> 5"
  then show "retry_articles as items = items" by (simp add: retry_articles_full target_count_def)
next
  assume "length items \<le> 5"
  then show "length (retry_pass q sels articles items) \<le> 5"
    using retry_pass_extra [of q sels articles items] by (auto simp: target_count_def)
qed

theorem C8_news_at_most_five_witness:
  "map title (extract_news example_news_page) = [''Alpha rises'', ''Beta falls'', ''Gamma holds''] \<and>
   length (extract_news example_news_page) \<le> 5 \<and>
   first_pass [plain_article ''Zeta'' ''/z'']
     (replicate 5 \<lparr>title = ''Alpha rises'', url = ''/news/alpha''\<rparr>) =
     replicate 5 \<lparr>title = ''Alpha rises'', url = ''/news/alpha''\<rparr> \<and>
   length (first_pass [plain_article ''Zeta'' ''/z''] []) \<le> 5 \<and>
   retry_articles [plain_article ''Zeta'' ''/z'']
     (replicate 5 \<lparr>title = ''Alpha rises'', url = ''/news/alpha''\<rparr>) =
     replicate 5 \<lparr>title = ''Alpha rises'', url = ''/news/alpha''\<rparr> \<and>
   length (retry_pass (listing_after_scroll example_news_page) article_selectors [] []) \<le> 5"
proof -
  have ex: "map title (extract_news example_news_page) =
      [''Alpha rises'', ''Beta falls'', ''Gamma holds'']"
    by code_simp
  have five: "length (replicate 5 \<lparr>title = ''Alpha rises'', url = ''/news/alpha''\<rparr>) \<ge> 5"
    "length ([] :: NewsItem list) \<le> 5" by simp_all
  note inst1 = C8_news_at_most_five [of example_news_page
      "replicate 5 \<lparr>title = ''Alpha rises'', url = ''/news/alpha''\<rparr>"
      "[plain_article ''Zeta'' ''/z'']"]
  note inst2 = C8_news_at_most_five [of example_news_page "[]" "[plain_article ''Zeta'' ''/z'']"
      _ "listing_after_scroll example_news_page" article_selectors "[]"]
  show ?thesis using ex five inst1 inst2 by blast
qed

end
